(* ===== verification/Prelude.thy ===== *)
theory Prelude
  imports Complex_Main "HOL-Library.Word"
begin

text \<open>
  Shared vocabulary of the motor-controller model: the C semantics the firmware relies on
  (truncating integer division, float-to-int conversion, the counted \<open>for\<close> loop that
  accumulates analog reads), the ADC value range, the 16-bit range of an AVR \<open>int\<close>, and
  the generic lemmas on these that the component theories share.
\<close>

named_theorems model_simps \<open>equations that evaluate the model's helpers\<close>

type_synonym adc = int
  \<comment> \<open>a raw 10-bit reading of \<open>analogRead\<close> / \<open>analogReadFast\<close>, held in a C \<open>int\<close>\<close>

type_synonym reads = "nat \<Rightarrow> adc"
  \<comment> \<open>the successive values returned by the analog-read primitive within one call\<close>

definition adc_ok :: "adc \<Rightarrow> bool" where
  "adc_ok x \<longleftrightarrow> 0 \<le> x \<and> x \<le> 1023"

definition int16_ok :: "int \<Rightarrow> bool" where
  "int16_ok x \<longleftrightarrow> -32768 \<le> x \<and> x \<le> 32767"

definition c_div :: "int \<Rightarrow> int \<Rightarrow> int" where
  \<comment> \<open>C's \<open>/\<close> on \<open>int\<close>: truncation towards zero\<close>
  "c_div a b = sgn a * sgn b * (\<bar>a\<bar> div \<bar>b\<bar>)"

definition c_trunc :: "real \<Rightarrow> int" where
  \<comment> \<open>C's conversion of a \<open>float\<close> to \<open>int\<close>: truncation towards zero\<close>
  "c_trunc x = (if 0 \<le> x then \<lfloor>x\<rfloor> else - \<lfloor>- x\<rfloor>)"

definition arduino_max :: "real \<Rightarrow> real \<Rightarrow> real" where
  \<comment> \<open>the Arduino macro \<open>max(a, b)\<close>, i.e. \<open>((a) > (b) ? (a) : (b))\<close>\<close>
  "arduino_max a b = (if a > b then a else b)"

function accum_reads :: "reads \<Rightarrow> nat \<Rightarrow> nat \<Rightarrow> int \<Rightarrow> int" where
  \<comment> \<open>\<open>for (senseSamples = i; senseSamples < n; senseSamples++) acc += read();\<close>\<close>
  "accum_reads rd i n acc = (if i < n then accum_reads rd (Suc i) n (acc + rd i) else acc)"
  by pat_completeness auto
termination
  by (relation "measure (\<lambda>(rd, i, n, acc). n - i)") auto

declare accum_reads.simps [simp del]

lemma c_div_nonneg [model_simps]: "0 \<le> a \<Longrightarrow> 0 < b \<Longrightarrow> c_div a b = a div b"
  by (cases "a = 0") (auto simp: c_div_def sgn_if)

lemma c_trunc_zero [simp]: "c_trunc 0 = 0"
  by (simp add: c_trunc_def)

lemma c_trunc_numeral [simp]: "c_trunc (numeral n) = numeral n"
  by (simp add: c_trunc_def)

lemma c_trunc_of_int [simp]: "c_trunc (of_int k) = k"
  by (simp add: c_trunc_def)

lemma accum_reads_sum: "accum_reads rd i n acc = acc + (\<Sum>k = i..<n. rd k)"
proof (induction rd i n acc rule: accum_reads.induct)
  case (1 rd i n acc)
  show ?case
  proof (cases "i < n")
    case True
    with "1" show ?thesis
      by (simp add: accum_reads.simps [of rd i n acc] sum.atLeast_Suc_lessThan)
  next
    case False
    then show ?thesis by (simp add: accum_reads.simps [of rd i n acc])
  qed
qed

lemma accum_reads_5 [model_simps]:
  "accum_reads rd 0 5 acc = acc + rd 0 + rd 1 + rd 2 + rd 3 + rd 4"
  by (simp add: accum_reads_sum numeral_eq_Suc atLeast0_lessThan_Suc)

lemma accum_reads_const [model_simps]: "accum_reads (\<lambda>_. r) 0 n acc = acc + int n * r"
  by (simp add: accum_reads_sum)

lemma sum_adc_bounds:
  assumes "\<forall>k<n. adc_ok (rd k)"
  shows "0 \<le> (\<Sum>k = i..<n. rd k) \<and> (\<Sum>k = i..<n. rd k) \<le> 1023 * int (n - i)"
proof -
  have "(\<Sum>k = i..<n. rd k) \<le> (\<Sum>k = i..<n. 1023)"
    using assms by (intro sum_mono) (simp add: adc_ok_def)
  moreover have "0 \<le> (\<Sum>k = i..<n. rd k)"
    using assms by (intro sum_nonneg) (simp add: adc_ok_def)
  ultimately show ?thesis by simp
qed

lemma accum_reads_bounds:
  assumes "\<forall>k<n. adc_ok (rd k)"
  shows "acc \<le> accum_reads rd 0 n acc \<and> accum_reads rd 0 n acc \<le> acc + 1023 * int n"
  using sum_adc_bounds [of n rd 0, OF assms] by (simp add: accum_reads_sum)

lemma c_div_mult_cancel [model_simps]: "0 < n \<Longrightarrow> c_div (int n * v) (int n) = v"
  by (simp add: c_div_def abs_mult sgn_mult sgn_mult_abs)

lemma sum_list_adc_bounds:
  "list_all adc_ok xs \<Longrightarrow> 0 \<le> sum_list xs \<and> sum_list xs \<le> 1023 * int (length xs)"
  by (induction xs) (auto simp: adc_ok_def)

lemma adc_ok_average:
  assumes "0 \<le> s" "s \<le> 1023 * int c" "0 < c"
  shows "adc_ok (c_div s (int c))"
proof -
  have "s div int c \<le> (1023 * int c) div int c" using assms by (intro zdiv_mono1) simp_all
  with assms show ?thesis by (simp add: adc_ok_def c_div_nonneg pos_imp_zdiv_nonneg_iff)
qed

lemma div5_eq_iff: "(a::int) div 5 = q \<longleftrightarrow> 5 * q \<le> a \<and> a < 5 * q + 5"
proof
  assume q: "a div 5 = q"
  have "a = 5 * (a div 5) + a mod 5" by simp
  moreover have "0 \<le> a mod 5" "a mod 5 < 5" by simp_all
  ultimately show "5 * q \<le> a \<and> a < 5 * q + 5" using q by linarith
next
  assume h: "5 * q \<le> a \<and> a < 5 * q + 5"
  show "a div 5 = q"
    by (rule int_div_pos_eq [of a 5 q "a - 5 * q"]) (use h in simp_all)
qed

lemma c_trunc_nonneg_le: "0 \<le> x \<Longrightarrow> of_int (c_trunc x) \<le> x"
  by (simp add: c_trunc_def)

lemma sorted_le_last: "sorted xs \<Longrightarrow> x \<in> set xs \<Longrightarrow> (x::'a::linorder) \<le> last xs"
  by (induction xs) (auto intro: order_trans)

lemma unat_add_of_nat_16: "unat (a + of_nat n :: 16 word) = (unat a + n) mod 65536"
  by (simp add: unat_word_ariths unat_of_nat mod_add_right_eq)

end
