(* ===== verification/RunningAverage.thy ===== *)
theory RunningAverage
  imports Prelude
begin

text \<open>
  The moving-average filter \<open>RunningAverage movAvgCurrent(avgCount)\<close> of
  \<open>src/Motor Controller Firmware/src/modules/sense.cpp\<close>. The class comes from the
  Arduino RunningAverage library, which is not part of the repository; it is modelled from
  the spec (section 4.2): a ring of the last \<open>N\<close> samples, a running sum, a fast
  average from the running sum and a full average that re-sums the ring and stores the
  exact sum back. The ring holds the integer readings of \<open>analogReadFast\<close>; their
  float sum stays below \<open>2^24\<close> and is therefore exact, and the float quotient
  converted back to \<open>int\<close> is the truncating division \<open>c_div\<close>. The mean is over
  the samples held (\<open>ra_cnt\<close> of them), which is \<open>N\<close> once the ring is full.
  An average of an empty ring is \<open>NAN\<close> in the library, \<open>None\<close> here.

  Proved: the invariant \<open>ra_inv\<close> (shape of the array, running sum equals the sum
  of the array, unused slots are zero) holds initially and is kept by \<open>ra_addValue\<close>;
  the full and the fast average agree on every state satisfying it; and the ring refines
  the abstract window "the last \<open>N\<close> samples in arrival order" (\<open>ra_held\<close>,
  \<open>last_n\<close>), from which the window average and the constant round trip follow.
\<close>

record ring =
  ra_ar :: "int list"
  ra_size :: nat
  ra_idx :: nat
  ra_cnt :: nat
  ra_sum :: int

definition ra_new :: "nat \<Rightarrow> ring" where
  "ra_new n = \<lparr>ra_ar = replicate n 0, ra_size = n, ra_idx = 0, ra_cnt = 0, ra_sum = 0\<rparr>"

definition ra_addValue :: "ring \<Rightarrow> int \<Rightarrow> ring" where
  "ra_addValue r v =
     (if ra_size r = 0 then r
      else let i = ra_idx r;
               s = ra_sum r - ra_ar r ! i;
               ar = (ra_ar r)[i := v];
               s' = s + ar ! i;
               i' = (if Suc i = ra_size r then 0 else Suc i);
               c' = (if ra_cnt r < ra_size r then Suc (ra_cnt r) else ra_cnt r)
           in r\<lparr>ra_ar := ar, ra_sum := s', ra_idx := i', ra_cnt := c'\<rparr>)"

definition ra_getAverage :: "ring \<Rightarrow> (ring \<times> int) option" where
  "ra_getAverage r =
     (if ra_cnt r = 0 then None
      else let s = sum_list (take (ra_cnt r) (ra_ar r))
           in Some (r\<lparr>ra_sum := s\<rparr>, c_div s (int (ra_cnt r))))"

definition ra_getFastAverage :: "ring \<Rightarrow> int option" where
  "ra_getFastAverage r =
     (if ra_cnt r = 0 then None else Some (c_div (ra_sum r) (int (ra_cnt r))))"

definition ra_inv :: "ring \<Rightarrow> bool" where
  "ra_inv r \<longleftrightarrow>
     length (ra_ar r) = ra_size r \<and> 0 < ra_size r \<and> ra_idx r < ra_size r \<and>
     ra_cnt r \<le> ra_size r \<and> ra_sum r = sum_list (ra_ar r) \<and>
     (ra_cnt r = ra_size r \<or>
      ra_idx r = ra_cnt r \<and> drop (ra_cnt r) (ra_ar r) = replicate (ra_size r - ra_cnt r) 0)"

definition last_n :: "nat \<Rightarrow> 'a list \<Rightarrow> 'a list" where
  "last_n n xs = drop (length xs - n) xs"

definition ra_held :: "ring \<Rightarrow> int list" where
  "ra_held r =
     (if ra_cnt r < ra_size r then take (ra_cnt r) (ra_ar r) else rotate (ra_idx r) (ra_ar r))"

definition ra_addValues :: "ring \<Rightarrow> int list \<Rightarrow> ring" where
  "ra_addValues r xs = fold (\<lambda>v r. ra_addValue r v) xs r"

lemma sum_list_update_int:
  "i < length xs \<Longrightarrow> sum_list (xs[i := v]) = sum_list xs - xs ! i + (v :: int)"
proof -
  assume i: "i < length xs"
  have "sum_list xs = sum_list (take i xs) + xs ! i + sum_list (drop (Suc i) xs)"
    using id_take_nth_drop [OF i] by (metis add.assoc sum_list.Cons sum_list_append)
  with i show ?thesis by (simp add: upd_conv_take_nth_drop)
qed

lemma sum_list_rotate: "sum_list (rotate n xs) = sum_list (xs :: int list)"
  by (metis add.commute append_take_drop_id rotate_drop_take sum_list_append)

lemma rotate_update_next:
  assumes "i < length xs"
  shows "rotate (if Suc i = length xs then 0 else Suc i) (xs[i := v]) = tl (rotate i xs) @ [v]"
proof -
  have r: "rotate i xs = drop i xs @ take i xs"
    using assms by (simp add: rotate_drop_take)
  have tl: "tl (drop i xs) = drop (Suc i) xs"
    by (simp add: drop_Suc tl_drop)
  have ne: "drop i xs \<noteq> []" using assms by simp
  show ?thesis
  proof (cases "Suc i = length xs")
    case True
    then have "xs[i := v] = take i xs @ [v]"
      using assms by (simp add: upd_conv_take_nth_drop)
    with True r tl ne show ?thesis by simp
  next
    case False
    with assms have "Suc i < length xs" by simp
    then have "rotate (Suc i) (xs[i := v]) = drop (Suc i) xs @ take i xs @ [v]"
      using assms by (simp add: rotate_drop_take upd_conv_take_nth_drop)
    with False r tl ne show ?thesis by simp
  qed
qed

lemma last_n_append_last_n:
  "last_n n (last_n n ys @ zs) = last_n n (ys @ zs)"
  by (cases "n \<le> length ys") (auto simp: last_n_def drop_append ac_simps)

lemma ra_new_inv: "0 < n \<Longrightarrow> ra_inv (ra_new n)"
  by (simp add: ra_inv_def ra_new_def sum_list_replicate)

lemma ra_addValue_inv:
  assumes inv: "ra_inv r"
  shows "ra_inv (ra_addValue r v)"
proof -
  let ?i = "ra_idx r" and ?c = "ra_cnt r" and ?n = "ra_size r" and ?ar = "ra_ar r"
  from inv have len: "length ?ar = ?n" and pos: "0 < ?n" and i: "?i < ?n" and c: "?c \<le> ?n"
    and sum: "ra_sum r = sum_list ?ar"
    and shape: "?c = ?n \<or> ?i = ?c \<and> drop ?c ?ar = replicate (?n - ?c) 0"
    by (auto simp: ra_inv_def)
  have sum': "ra_sum r - ?ar ! ?i + v = sum_list (?ar[?i := v])"
    using i len sum by (simp add: sum_list_update_int)
  show ?thesis
  proof (cases "?c = ?n")
    case True
    with len pos i sum' show ?thesis by (simp add: ra_addValue_def ra_inv_def Let_def)
  next
    case False
    with shape have ic: "?i = ?c" and z: "drop ?c ?ar = replicate (?n - ?c) 0" by auto
    have "drop (Suc ?c) ?ar = drop 1 (drop ?c ?ar)" by simp
    with z have "drop (Suc ?c) (?ar[?c := v]) = replicate (?n - Suc ?c) 0" by simp
    with False c len pos i ic sum' show ?thesis
      by (simp add: ra_addValue_def ra_inv_def Let_def)
  qed
qed

lemma ra_inv_sum_take: "ra_inv r \<Longrightarrow> sum_list (take (ra_cnt r) (ra_ar r)) = ra_sum r"
  by (auto simp: ra_inv_def) (metis append_take_drop_id sum_list_append sum_list_replicate
      mult_zero_right of_nat_0 add_0_right)

lemma ra_held_length: "ra_inv r \<Longrightarrow> length (ra_held r) = ra_cnt r"
  by (auto simp: ra_inv_def ra_held_def)

lemma ra_held_sum: "ra_inv r \<Longrightarrow> sum_list (ra_held r) = ra_sum r"
  using ra_inv_sum_take [of r] by (auto simp: ra_inv_def ra_held_def sum_list_rotate)

lemma ra_fast_full_eq:
  "ra_inv r \<Longrightarrow> ra_getAverage r = map_option (\<lambda>a. (r, a)) (ra_getFastAverage r)"
  by (simp add: ra_getAverage_def ra_getFastAverage_def ra_inv_sum_take Let_def)

lemma ra_held_addValue:
  assumes inv: "ra_inv r"
  shows "ra_held (ra_addValue r v) = last_n (ra_size r) (ra_held r @ [v])"
proof -
  let ?i = "ra_idx r" and ?c = "ra_cnt r" and ?n = "ra_size r" and ?ar = "ra_ar r"
  from inv have len: "length ?ar = ?n" and pos: "0 < ?n" and i: "?i < ?n" and c: "?c \<le> ?n"
    and shape: "?c = ?n \<or> ?i = ?c"
    by (auto simp: ra_inv_def)
  show ?thesis
  proof (cases "?c = ?n")
    case True
    have "rotate (if Suc ?i = ?n then 0 else Suc ?i) (?ar[?i := v]) = tl (rotate ?i ?ar) @ [v]"
      using rotate_update_next [of ?i ?ar v] i len by simp
    with True len pos i show ?thesis
      by (simp add: ra_addValue_def ra_held_def last_n_def Let_def drop_Suc)
  next
    case False
    with shape c have ic: "?i = ?c" and lt: "?c < ?n" by auto
    have tk: "take (Suc ?c) (?ar[?c := v]) = take ?c ?ar @ [v]"
      using lt len by (simp add: take_Suc_conv_app_nth)
    show ?thesis
    proof (cases "Suc ?c = ?n")
      case True
      then have "?ar[?c := v] = take ?c ?ar @ [v]"
        using tk len by (metis length_list_update take_all_iff order_refl)
      with True ic lt len show ?thesis
        by (simp add: ra_addValue_def ra_held_def last_n_def Let_def)
    next
      case False
      with ic lt len tk show ?thesis
        by (simp add: ra_addValue_def ra_held_def last_n_def Let_def)
    qed
  qed
qed

lemma ra_addValues_inv: "ra_inv r \<Longrightarrow> ra_inv (ra_addValues r xs)"
  by (induction xs arbitrary: r) (simp_all add: ra_addValues_def ra_addValue_inv)

lemma ra_addValue_size: "ra_size (ra_addValue r v) = ra_size r"
  by (simp add: ra_addValue_def Let_def)

lemma ra_held_addValues:
  "ra_inv r \<Longrightarrow> ra_held (ra_addValues r xs) = last_n (ra_size r) (ra_held r @ xs)"
proof (induction xs arbitrary: r)
  case Nil
  then show ?case by (simp add: ra_addValues_def last_n_def ra_held_length ra_inv_def)
next
  case (Cons x xs)
  have "ra_inv (ra_addValue r x)" using Cons.prems by (rule ra_addValue_inv)
  then have "ra_held (ra_addValues (ra_addValue r x) xs)
      = last_n (ra_size r) (ra_held (ra_addValue r x) @ xs)"
    using Cons.IH by (simp add: ra_addValue_size)
  also have "\<dots> = last_n (ra_size r) (ra_held r @ x # xs)"
    using Cons.prems by (simp add: ra_held_addValue last_n_append_last_n)
  finally show ?case by (simp add: ra_addValues_def)
qed

lemma ra_fast_average_held:
  "ra_inv r \<Longrightarrow> ra_getFastAverage r =
     (if ra_held r = [] then None
      else Some (c_div (sum_list (ra_held r)) (int (length (ra_held r)))))"
  by (simp add: ra_getFastAverage_def ra_held_sum ra_held_length flip: length_0_conv)

lemma ra_new_held: "ra_held (ra_new n) = []"
  by (simp add: ra_held_def ra_new_def)

lemma ra_window_average:
  assumes "0 < n" and "xs \<noteq> []"
  shows "ra_getFastAverage (ra_addValues (ra_new n) xs)
           = Some (c_div (sum_list (last_n n xs)) (int (length (last_n n xs))))"
proof -
  have inv: "ra_inv (ra_new n)" using assms(1) by (rule ra_new_inv)
  have "ra_held (ra_addValues (ra_new n) xs) = last_n n xs"
    using ra_held_addValues [OF inv, of xs] ra_new_held [of n]
    by (simp add: ra_new_def [of n])
  moreover have "last_n n xs \<noteq> []"
  proof -
    have "0 < length xs" using assms(2) by simp
    with assms(1) show ?thesis unfolding last_n_def by (metis diff_less drop_eq_Nil not_le)
  qed
  ultimately show ?thesis
    using ra_fast_average_held [OF ra_addValues_inv [OF inv, of xs]] by simp
qed

lemma ra_constant_roundtrip:
  assumes "0 < n"
  shows "ra_getFastAverage (ra_addValues (ra_new n) (replicate n v)) = Some v
       \<and> map_option snd (ra_getAverage (ra_addValues (ra_new n) (replicate n v))) = Some v"
proof -
  have inv: "ra_inv (ra_addValues (ra_new n) (replicate n v))"
    using assms by (intro ra_addValues_inv ra_new_inv)
  have "last_n n (replicate n v) = replicate n v" by (simp add: last_n_def)
  then have fast: "ra_getFastAverage (ra_addValues (ra_new n) (replicate n v)) = Some v"
    using ra_window_average [OF assms, of "replicate n v"] assms
    by (simp add: sum_list_replicate c_div_mult_cancel)
  with ra_fast_full_eq [OF inv] show ?thesis by simp
qed

lemma ra_addValue_cnt_pos: "ra_inv r \<Longrightarrow> 0 < ra_cnt (ra_addValue r v)"
  by (auto simp: ra_inv_def ra_addValue_def Let_def)

lemma ra_addValue_adc:
  "ra_inv r \<Longrightarrow> list_all adc_ok (ra_ar r) \<Longrightarrow> adc_ok v \<Longrightarrow> list_all adc_ok (ra_ar (ra_addValue r v))"
  by (auto simp: ra_inv_def ra_addValue_def Let_def list_all_iff dest: set_update_subset_insert [THEN subsetD])

lemma ra_fast_average_adc:
  assumes "ra_inv r" "list_all adc_ok (ra_ar r)" "0 < ra_cnt r"
  shows "adc_ok (c_div (ra_sum r) (int (ra_cnt r)))"
proof -
  have "list_all adc_ok (take (ra_cnt r) (ra_ar r))"
    using assms(2) by (auto simp: list_all_iff dest: in_set_takeD)
  then have "0 \<le> ra_sum r \<and> ra_sum r \<le> 1023 * int (ra_cnt r)"
    using sum_list_adc_bounds ra_inv_sum_take [OF assms(1)] assms(1)
    by (fastforce simp: ra_inv_def min_def)
  with assms(3) show ?thesis by (intro adc_ok_average) simp_all
qed

end
