(* ===== verification/Sense.thy ===== *)
theory Sense
  imports RunningAverage
begin

text \<open>
  The sensing module \<open>src/Motor Controller Firmware/src/modules/sense.cpp\<close>. Its
  file-scope globals are the record \<open>sense_state\<close>; each function of the file is one
  definition that takes the state and returns the new one. The analog-read primitives
  and the temperature-probe library are external: a call receives the values they
  return (\<open>reads\<close>, \<open>k\<close>-th value of the \<open>k\<close>-th call in the function's loop) as an
  argument. Floats are modelled as reals (their rounding is not modelled; the ADC
  integers they are computed from are exact). \<open>int\<close> is the 16-bit AVR \<open>int\<close> and
  \<open>unsigned int sumCounter\<close> is a \<open>16 word\<close>; the lemmas show the ADC accumulators
  never leave the 16-bit range. A C out-of-range array write is an error value.
\<close>

datatype sense_error =
    NanAverage  \<comment> \<open>the moving average of an empty ring is \<open>NAN\<close>\<close>
  | TempIndexOutOfRange nat  \<comment> \<open>\<open>tempC[i]\<close> written with \<open>i \<ge> 2\<close>\<close>

datatype pwm_action = IncreasePWM | KeepPWM | DecreasePWM

record sense_state =
  deviceCount :: int
  tempC :: "real list"
  senseSamples :: int
  sumCounter :: "16 word"
  zeroISenseVADC :: int
  iSenseVADC :: int
  current :: real
  vSenseADC :: int
  voltage :: real
  power :: real
  powerA :: "real list"
  mx :: real
  movAvgCurrent :: ring

definition avgCount :: nat where
  "avgCount = 16"

definition conversionFactor :: real where
  "conversionFactor = 5.0 / 1024 / 1000"

definition sense_init :: sense_state where
  "sense_init =
     \<lparr>deviceCount = 0, tempC = replicate 2 0, senseSamples = 0, sumCounter = 0,
      zeroISenseVADC = 0, iSenseVADC = 0, current = 0, vSenseADC = 0, voltage = 0,
      power = 0, powerA = replicate 100 0, mx = 0, movAvgCurrent = ra_new avgCount\<rparr>"

definition configureTempSensors :: "sense_state \<Rightarrow> int \<Rightarrow> sense_state" where
  \<comment> \<open>\<open>n\<close> is the value of \<open>tempSensors.getDeviceCount()\<close>\<close>
  "configureTempSensors s n = s\<lparr>deviceCount := n\<rparr>"

function temp_loop :: "(nat \<Rightarrow> real) \<Rightarrow> int \<Rightarrow> nat \<Rightarrow> real list \<Rightarrow> sense_error + real list" where
  "temp_loop rd cnt i ts =
     (if int i < cnt then
        (if i < length ts then temp_loop rd cnt (Suc i) (ts[i := rd i])
         else Inl (TempIndexOutOfRange i))
      else Inr ts)"
  by pat_completeness auto
termination
  by (relation "measure (\<lambda>(rd, cnt, i, ts). nat (cnt - int i))") auto

declare temp_loop.simps [simp del]

definition senseTemperatures :: "sense_state \<Rightarrow> (nat \<Rightarrow> real) \<Rightarrow> sense_error + sense_state" where
  \<comment> \<open>\<open>rd i\<close> is the value of \<open>tempSensors.getTempCByIndex(i)\<close>\<close>
  "senseTemperatures s rd =
     (case temp_loop rd (deviceCount s) 0 (tempC s) of
        Inl e \<Rightarrow> Inl e
      | Inr ts \<Rightarrow> Inr (s\<lparr>tempC := ts, senseSamples := max 0 (deviceCount s)\<rparr>))"

definition senseZeroCurrent :: "sense_state \<Rightarrow> reads \<Rightarrow> sense_state" where
  "senseZeroCurrent s rd =
     s\<lparr>senseSamples := 5,
       zeroISenseVADC := c_div (accum_reads rd 0 5 (zeroISenseVADC s)) 5\<rparr>"

definition senseCurrent :: "sense_state \<Rightarrow> adc \<Rightarrow> sense_error + sense_state" where
  "senseCurrent s r =
     (let m = ra_addValue (movAvgCurrent s) r;
          c = sumCounter s + 1;
          avg = (if c \<noteq> 65535 then map_option (\<lambda>a. (m, a)) (ra_getFastAverage m)
                 else ra_getAverage m)
      in case avg of
           None \<Rightarrow> Inl NanAverage
         | Some (m', a) \<Rightarrow>
             Inr (s\<lparr>movAvgCurrent := m', sumCounter := c, iSenseVADC := a,
                    current := conversionFactor * of_int (a - zeroISenseVADC s) * 19500\<rparr>))"

definition senseCurrent_ref :: "sense_state \<Rightarrow> adc \<Rightarrow> sense_error + sense_state" where
  \<comment> \<open>reference: \<open>senseCurrent\<close> with the authoritative full recomputation on every call\<close>
  "senseCurrent_ref s r =
     (case ra_getAverage (ra_addValue (movAvgCurrent s) r) of
        None \<Rightarrow> Inl NanAverage
      | Some (m', a) \<Rightarrow>
          Inr (s\<lparr>movAvgCurrent := m', sumCounter := sumCounter s + 1, iSenseVADC := a,
                 current := conversionFactor * of_int (a - zeroISenseVADC s) * 19500\<rparr>))"

definition senseVoltage :: "sense_state \<Rightarrow> reads \<Rightarrow> sense_state" where
  "senseVoltage s rd =
     (let v = c_div (accum_reads rd 0 5 (vSenseADC s)) 5
      in s\<lparr>senseSamples := 5, vSenseADC := v, voltage := of_int v * (44.8 / 1024)\<rparr>)"

definition sensePower :: "sense_state \<Rightarrow> sense_state" where
  "sensePower s = s\<lparr>power := voltage s * current s\<rparr>"

definition mppt_peak :: "real list \<Rightarrow> real \<Rightarrow> real" where
  \<comment> \<open>\<open>for (int i : powerA) mx = max(mx, i);\<close>\<close>
  "mppt_peak ps m = fold (\<lambda>p m. arduino_max m (of_int (c_trunc p))) ps m"

definition trackMPPT :: "sense_state \<Rightarrow> sense_state \<times> pwm_action" where
  "trackMPPT s =
     (let m = mppt_peak (powerA s) (mx s)
      in (s\<lparr>mx := m\<rparr>,
          if power s > m then IncreasePWM
          else if power s = m then KeepPWM
          else if powerA s ! 99 < powerA s ! 98 then DecreasePWM
          else IncreasePWM))"

datatype sense_op =
    ConfigureTemps int
  | SenseTemps "nat \<Rightarrow> real"
  | ZeroCurrent reads
  | SenseCurrentOp adc
  | SenseVoltageOp reads
  | SensePowerOp
  | TrackMPPTOp

fun sense_step :: "sense_state \<Rightarrow> sense_op \<Rightarrow> sense_error + sense_state" where
  "sense_step s (ConfigureTemps n) = Inr (configureTempSensors s n)"
| "sense_step s (SenseTemps rd) = senseTemperatures s rd"
| "sense_step s (ZeroCurrent rd) = Inr (senseZeroCurrent s rd)"
| "sense_step s (SenseCurrentOp r) = senseCurrent s r"
| "sense_step s (SenseVoltageOp rd) = Inr (senseVoltage s rd)"
| "sense_step s SensePowerOp = Inr (sensePower s)"
| "sense_step s TrackMPPTOp = Inr (fst (trackMPPT s))"

fun op_ok :: "sense_op \<Rightarrow> bool" where
  \<comment> \<open>the analog primitives return 10-bit values, \<open>getDeviceCount()\<close> a \<open>uint8_t\<close>\<close>
  "op_ok (ConfigureTemps n) = (0 \<le> n \<and> n \<le> 255)"
| "op_ok (ZeroCurrent rd) = (\<forall>k<5. adc_ok (rd k))"
| "op_ok (SenseCurrentOp r) = adc_ok r"
| "op_ok (SenseVoltageOp rd) = (\<forall>k<5. adc_ok (rd k))"
| "op_ok _ = True"

definition sense_inv :: "sense_state \<Rightarrow> bool" where
  "sense_inv s \<longleftrightarrow>
     ra_inv (movAvgCurrent s) \<and> ra_size (movAvgCurrent s) = avgCount \<and>
     list_all adc_ok (ra_ar (movAvgCurrent s)) \<and>
     length (tempC s) = 2 \<and> length (powerA s) = 100 \<and>
     0 \<le> zeroISenseVADC s \<and> zeroISenseVADC s \<le> 1278 \<and>
     0 \<le> vSenseADC s \<and> vSenseADC s \<le> 1278 \<and> adc_ok (iSenseVADC s) \<and>
     0 \<le> deviceCount s \<and> deviceCount s \<le> 255 \<and> 0 \<le> senseSamples s \<and> senseSamples s \<le> 255"

definition phys_ok :: "sense_state \<Rightarrow> bool" where
  \<comment> \<open>the physical-unit globals agree with the ADC values and the range they imply\<close>
  "phys_ok s \<longleftrightarrow>
     voltage s = of_int (vSenseADC s) * (44.8 / 1024) \<and>
     conversionFactor * (- 1278) * 19500 \<le> current s \<and> current s \<le> conversionFactor * 1023 * 19500"

inductive sense_reach :: "sense_state \<Rightarrow> bool" where
  init: "sense_reach sense_init"
| step: "sense_reach s \<Longrightarrow> op_ok e \<Longrightarrow> sense_step s e = Inr s' \<Longrightarrow> sense_reach s'"

fun senseCurrent_run :: "sense_state \<Rightarrow> adc list \<Rightarrow> sense_error + sense_state" where
  \<comment> \<open>successive calls \<open>senseCurrent()\<close>, one per reading, stopping at an error\<close>
  "senseCurrent_run s [] = Inr s"
| "senseCurrent_run s (r # rs) =
     (case senseCurrent s r of Inl e \<Rightarrow> Inl e | Inr s' \<Rightarrow> senseCurrent_run s' rs)"

fun volt_iter :: "nat \<Rightarrow> adc \<Rightarrow> sense_state \<Rightarrow> sense_state" where
  \<comment> \<open>\<open>n\<close> successive calls \<open>senseVoltage()\<close> while the battery reads the constant \<open>r\<close>\<close>
  "volt_iter 0 r s = s"
| "volt_iter (Suc n) r s = volt_iter n r (senseVoltage s (\<lambda>_. r))"

definition volt_dist_bound :: "int \<Rightarrow> int" where
  \<comment> \<open>a bound on \<open>5 r - 4 vSenseADC\<close> after one more call, given the bound before it\<close>
  "volt_dist_bound b = (if b \<le> 8 then min 4 b else b div 5 + 4)"

lemma arduino_max_eq [model_simps]: "arduino_max a b = max a b"
  by (simp add: arduino_max_def max_def)

lemma mppt_peak_Max:
  "mppt_peak ps m = Max (insert m ((\<lambda>p. of_int (c_trunc p)) ` set ps))"
proof -
  have "mppt_peak ps m = fold max (map (\<lambda>p. of_int (c_trunc p)) ps) m"
  proof -
    have "(\<lambda>p m. arduino_max m (of_int (c_trunc p))) = (\<lambda>p. max (of_int (c_trunc p) :: real))"
      by (auto simp: fun_eq_iff arduino_max_eq max.commute)
    then show ?thesis by (simp add: mppt_peak_def fold_map comp_def)
  qed
  also have "\<dots> = Max (set (m # map (\<lambda>p. of_int (c_trunc p)) ps))"
    by (rule Max.set_eq_fold [symmetric])
  finally show ?thesis by simp
qed

lemma mppt_peak_zeros [model_simps]: "0 < n \<Longrightarrow> mppt_peak (replicate n 0) m = max m 0"
  by (simp add: mppt_peak_Max)

lemma adc_div_bound:
  assumes "0 \<le> z" "z \<le> 1278" "\<forall>k<5. adc_ok (rd k)"
  shows "0 \<le> c_div (accum_reads rd 0 5 z) 5 \<and> c_div (accum_reads rd 0 5 z) 5 \<le> 1278"
proof -
  let ?a = "accum_reads rd 0 5 z"
  have a: "0 \<le> ?a \<and> ?a \<le> 6393"
    using accum_reads_bounds [of 5 rd z, OF assms(3)] assms(1,2) by simp
  then have "?a div 5 \<le> 6393 div 5" by (intro zdiv_mono1) simp_all
  with a show ?thesis by (simp add: c_div_nonneg pos_imp_zdiv_nonneg_iff)
qed

lemma senseCurrent_fast:
  assumes "ra_inv (movAvgCurrent s)"
  shows "senseCurrent s r =
    Inr (s\<lparr>movAvgCurrent := ra_addValue (movAvgCurrent s) r, sumCounter := sumCounter s + 1,
           iSenseVADC := c_div (ra_sum (ra_addValue (movAvgCurrent s) r))
                                (int (ra_cnt (ra_addValue (movAvgCurrent s) r))),
           current := conversionFactor * of_int (c_div (ra_sum (ra_addValue (movAvgCurrent s) r))
                                (int (ra_cnt (ra_addValue (movAvgCurrent s) r))) - zeroISenseVADC s) * 19500\<rparr>)"
proof -
  let ?m = "ra_addValue (movAvgCurrent s) r"
  have inv: "ra_inv ?m" using assms by (rule ra_addValue_inv)
  have pos: "ra_cnt ?m \<noteq> 0" using ra_addValue_cnt_pos [OF assms, of r] by simp
  show ?thesis
    using ra_fast_full_eq [OF inv] pos by (simp add: senseCurrent_def ra_getFastAverage_def Let_def)
qed

lemma temp_loop_length: "temp_loop rd c i ts = Inr ts' \<Longrightarrow> length ts' = length ts"
proof (induction rd c i ts rule: temp_loop.induct)
  case (1 rd c i ts)
  then show ?case
    by (cases "int i < c"; cases "i < length ts") (auto simp: temp_loop.simps [of rd c i ts])
qed

lemma sense_step_inv:
  assumes inv: "sense_inv s" and ok: "op_ok e" and st: "sense_step s e = Inr s'"
  shows "sense_inv s'"
proof (cases e)
  case (SenseTemps rd)
  with inv st show ?thesis
    by (auto simp: sense_inv_def senseTemperatures_def dest: temp_loop_length split: sum.splits)
next
  case (ZeroCurrent rd)
  with inv ok st adc_div_bound [of "zeroISenseVADC s" rd] show ?thesis
    by (auto simp: sense_inv_def senseZeroCurrent_def)
next
  case (SenseCurrentOp r)
  let ?m = "ra_addValue (movAvgCurrent s) r"
  from inv have ri: "ra_inv (movAvgCurrent s)" by (simp add: sense_inv_def)
  have "adc_ok (c_div (ra_sum ?m) (int (ra_cnt ?m)))"
    using inv ok SenseCurrentOp
    by (intro ra_fast_average_adc ra_addValue_inv ra_addValue_cnt_pos ra_addValue_adc ri)
       (simp_all add: sense_inv_def)
  with inv ok st SenseCurrentOp ri show ?thesis
    by (auto simp: sense_inv_def senseCurrent_fast ra_addValue_inv ra_addValue_size ra_addValue_adc)
next
  case (SenseVoltageOp rd)
  with inv ok st adc_div_bound [of "vSenseADC s" rd] show ?thesis
    by (auto simp: sense_inv_def senseVoltage_def Let_def)
qed (use inv ok st in \<open>auto simp: sense_inv_def configureTempSensors_def sensePower_def trackMPPT_def Let_def\<close>)

lemma sense_init_inv: "sense_inv sense_init"
  by (simp add: sense_inv_def sense_init_def ra_new_inv avgCount_def adc_ok_def)
     (simp add: ra_new_def list_all_iff adc_ok_def)

lemma sense_reach_sense_inv: "sense_reach s \<Longrightarrow> sense_inv s"
  by (induction rule: sense_reach.induct) (auto intro: sense_init_inv sense_step_inv)

lemma senseCurrent_Inr:
  "senseCurrent s r = Inr s' \<Longrightarrow>
     \<exists>m c a x. s' = s\<lparr>movAvgCurrent := m, sumCounter := c, iSenseVADC := a, current := x\<rparr>"
  by (auto simp: senseCurrent_def Let_def split: if_splits option.splits)

lemma sense_step_history:
  "sense_step s e = Inr s' \<Longrightarrow>
     powerA s' = powerA s \<and>
     mx s' = (case e of TrackMPPTOp \<Rightarrow> mppt_peak (powerA s) (mx s) | _ \<Rightarrow> mx s)"
  by (cases e) (auto simp: configureTempSensors_def senseTemperatures_def senseZeroCurrent_def
      senseVoltage_def sensePower_def trackMPPT_def Let_def dest!: senseCurrent_Inr split: sum.splits)

lemma sense_reach_history: "sense_reach s \<Longrightarrow> powerA s = replicate 100 0 \<and> mx s = 0"
proof (induction rule: sense_reach.induct)
  case init
  show ?case by (simp add: sense_init_def)
next
  case (step s e s')
  then show ?case
    using sense_step_history [OF step.hyps(3)] by (simp add: mppt_peak_zeros split: sense_op.splits)
qed

lemma senseVoltage_const:
  "0 \<le> vSenseADC s \<Longrightarrow> 0 \<le> r \<Longrightarrow> vSenseADC (senseVoltage s (\<lambda>_. r)) = (vSenseADC s + 5 * r) div 5"
  by (simp add: senseVoltage_def accum_reads_const c_div_nonneg Let_def)

lemma senseVoltage_fix_iff:
  assumes "0 \<le> vSenseADC s" "0 \<le> r"
  shows "vSenseADC (senseVoltage s (\<lambda>_. r)) = vSenseADC s \<longleftrightarrow>
           4 * vSenseADC s \<le> 5 * r \<and> 5 * r < 4 * vSenseADC s + 5"
  using div5_eq_iff [of "vSenseADC s + 5 * r" "vSenseADC s"] senseVoltage_const [OF assms]
  by linarith

lemma temp_loop_Inl:
  "i \<le> length ts \<Longrightarrow>
     temp_loop rd c i ts = Inl e \<longleftrightarrow> int (length ts) < c \<and> e = TempIndexOutOfRange (length ts)"
proof (induction rd c i ts rule: temp_loop.induct)
  case (1 rd c i ts)
  show ?case
  proof (cases "int i < c")
    case True
    show ?thesis
    proof (cases "i < length ts")
      case lt: True
      with "1.IH" [OF True lt] True show ?thesis
        by (simp add: temp_loop.simps [of rd c i ts])
    next
      case False
      with True have "temp_loop rd c i ts = Inl (TempIndexOutOfRange i)"
        by (simp add: temp_loop.simps [of rd c i ts])
      with "1.prems" False True show ?thesis by auto
    qed
  next
    case False
    with "1.prems" show ?thesis by (simp add: temp_loop.simps [of rd c i ts])
  qed
qed

lemma senseCurrent_run_window:
  assumes "ra_inv (movAvgCurrent s)" "rs \<noteq> []"
  shows "\<exists>s'. senseCurrent_run s rs = Inr s' \<and>
           movAvgCurrent s' = ra_addValues (movAvgCurrent s) rs \<and>
           sumCounter s' = sumCounter s + of_nat (length rs) \<and>
           iSenseVADC s' = c_div (ra_sum (movAvgCurrent s')) (int (ra_cnt (movAvgCurrent s')))"
  using assms
proof (induction rs arbitrary: s)
  case Nil
  then show ?case by simp
next
  case (Cons r rs)
  let ?s1 = "s\<lparr>movAvgCurrent := ra_addValue (movAvgCurrent s) r, sumCounter := sumCounter s + 1,
       iSenseVADC := c_div (ra_sum (ra_addValue (movAvgCurrent s) r))
                      (int (ra_cnt (ra_addValue (movAvgCurrent s) r))),
       current := conversionFactor * of_int (c_div (ra_sum (ra_addValue (movAvgCurrent s) r))
                      (int (ra_cnt (ra_addValue (movAvgCurrent s) r))) - zeroISenseVADC s) * 19500\<rparr>"
  have one: "senseCurrent s r = Inr ?s1" using Cons.prems(1) by (rule senseCurrent_fast)
  show ?case
  proof (cases "rs = []")
    case True
    with one show ?thesis by (simp add: ra_addValues_def)
  next
    case False
    have "ra_inv (movAvgCurrent ?s1)" using Cons.prems(1) by (simp add: ra_addValue_inv)
    from Cons.IH [OF this False] obtain s' where
      "senseCurrent_run ?s1 rs = Inr s'" "movAvgCurrent s' = ra_addValues (movAvgCurrent ?s1) rs"
      "sumCounter s' = sumCounter ?s1 + of_nat (length rs)"
      "iSenseVADC s' = c_div (ra_sum (movAvgCurrent s')) (int (ra_cnt (movAvgCurrent s')))"
      by blast
    with one show ?thesis by (simp add: ra_addValues_def ac_simps)
  qed
qed

lemma senseVoltage_dist:
  assumes "0 \<le> vSenseADC s" "0 \<le> r" "4 * vSenseADC s \<le> 5 * r" "5 * r - 4 * vSenseADC s \<le> b"
  shows "0 \<le> vSenseADC (senseVoltage s (\<lambda>_. r)) \<and> 4 * vSenseADC (senseVoltage s (\<lambda>_. r)) \<le> 5 * r \<and>
         5 * r - 4 * vSenseADC (senseVoltage s (\<lambda>_. r)) \<le> volt_dist_bound b"
proof -
  define v where "v = vSenseADC s"
  define d where "d = 5 * r - 4 * v"
  have d0: "0 \<le> d" using assms(3) by (simp add: d_def v_def)
  have "v + 5 * r = 5 * (v + d div 5) + d mod 5"
    using div_mult_mod_eq [of d 5] by (simp add: d_def)
  then have v': "vSenseADC (senseVoltage s (\<lambda>_. r)) = v + d div 5"
    using senseVoltage_const [OF assms(1,2)] by (simp add: v_def)
  have q: "0 \<le> d div 5" "5 * (d div 5) \<le> d" "d div 5 \<le> b div 5"
    using d0 assms(4) by (simp_all add: d_def v_def zdiv_mono1)
  have m: "0 \<le> d mod 5" "d mod 5 < 5" "d = 5 * (d div 5) + d mod 5" by simp_all
  have small: "d \<le> 8 \<Longrightarrow> d - 4 * (d div 5) \<le> 4"
  proof -
    assume "d \<le> 8"
    then have "d div 5 \<le> 1" using m by linarith
    then show ?thesis using m \<open>d \<le> 8\<close> by linarith
  qed
  show ?thesis
    using v' q m small assms(1,4) d0
    unfolding volt_dist_bound_def d_def [symmetric] v_def [symmetric] by (auto simp: d_def)
qed

lemma volt_iter_dist:
  assumes "0 \<le> vSenseADC s" "0 \<le> r" "4 * vSenseADC s \<le> 5 * r" "5 * r - 4 * vSenseADC s \<le> b"
  shows "0 \<le> vSenseADC (volt_iter n r s) \<and> 4 * vSenseADC (volt_iter n r s) \<le> 5 * r \<and>
         5 * r - 4 * vSenseADC (volt_iter n r s) \<le> (volt_dist_bound ^^ n) b"
  using assms
proof (induction n arbitrary: s b)
  case 0
  then show ?case by simp
next
  case (Suc n)
  from senseVoltage_dist [OF Suc.prems] show ?case
    using Suc.IH [of "senseVoltage s (\<lambda>_. r)" "volt_dist_bound b"] Suc.prems(2)
    by (simp add: funpow_swap1)
qed

text \<open>
  C3. \<open>senseVoltage\<close> adds five new samples to the previous average instead of a zeroed
  accumulator. A battery reading held at a constant \<open>r \<ge> 5\<close> therefore never reads as
  \<open>r\<close> in steady state: wherever the reading has stopped changing it lies strictly above
  \<open>r\<close> (and at most \<open>5 r / 4\<close>).
\<close>

theorem senseVoltage_overreads:
  assumes "0 \<le> vSenseADC s" and "5 \<le> r"
    and "vSenseADC (senseVoltage s (\<lambda>_. r)) = vSenseADC s"
  shows "r < vSenseADC s \<and> 4 * vSenseADC s \<le> 5 * r"
  using senseVoltage_fix_iff [of s r] assms by linarith

theorem senseVoltage_overreads_witness:
  "0 \<le> vSenseADC (sense_init\<lparr>vSenseADC := 925\<rparr>) \<and> (5::int) \<le> 740 \<and>
   vSenseADC (senseVoltage (sense_init\<lparr>vSenseADC := 925\<rparr>) (\<lambda>_. 740)) = vSenseADC (sense_init\<lparr>vSenseADC := 925\<rparr>) \<and>
   740 < vSenseADC (sense_init\<lparr>vSenseADC := 925\<rparr>)"
proof -
  have h: "vSenseADC (senseVoltage (sense_init\<lparr>vSenseADC := 925\<rparr>) (\<lambda>_. 740)) = vSenseADC (sense_init\<lparr>vSenseADC := 925\<rparr>)"
    by (simp add: senseVoltage_def model_simps)
  show ?thesis using senseVoltage_overreads [OF _ _ h] h by simp
qed

text \<open>
  C4. One call of \<open>senseCurrent\<close> on a well-formed filter always returns, pushes the
  reading into the ring, counts the call in \<open>sumCounter\<close> (modulo \<open>2^16\<close>) and sets
  \<open>iSenseVADC\<close> to the truncated mean of the last \<open>N\<close> readings, on the fast path and
  on the re-synchronising full path alike.
\<close>

theorem senseCurrent_window:
  assumes "ra_inv (movAvgCurrent s)"
  shows "\<exists>s'. senseCurrent s r = Inr s' \<and>
           movAvgCurrent s' = ra_addValue (movAvgCurrent s) r \<and>
           sumCounter s' = sumCounter s + 1 \<and>
           iSenseVADC s' =
             c_div (sum_list (last_n (ra_size (movAvgCurrent s)) (ra_held (movAvgCurrent s) @ [r])))
                   (int (length (last_n (ra_size (movAvgCurrent s)) (ra_held (movAvgCurrent s) @ [r]))))"
proof -
  let ?m = "ra_addValue (movAvgCurrent s) r"
  have inv: "ra_inv ?m" using assms by (rule ra_addValue_inv)
  have "ra_held ?m = last_n (ra_size (movAvgCurrent s)) (ra_held (movAvgCurrent s) @ [r])"
    using assms by (rule ra_held_addValue)
  then show ?thesis
    using senseCurrent_fast [OF assms, of r] ra_held_sum [OF inv] ra_held_length [OF inv] by simp
qed

theorem senseCurrent_window_witness:
  "ra_inv (movAvgCurrent (sense_init\<lparr>sumCounter := 65534\<rparr>)) \<and>
   (\<exists>s'. senseCurrent (sense_init\<lparr>sumCounter := 65534\<rparr>) 500 = Inr s' \<and> iSenseVADC s' = 500)"
proof -
  have h: "ra_inv (movAvgCurrent (sense_init\<lparr>sumCounter := 65534\<rparr>))"
    by (simp add: sense_init_def avgCount_def ra_inv_def ra_new_def sum_list_replicate)
  let ?s = "sense_init\<lparr>sumCounter := 65534\<rparr>"
  from senseCurrent_window [OF h, of 500] obtain s' where s': "senseCurrent ?s 500 = Inr s'"
    and a: "iSenseVADC s' = c_div (sum_list (last_n (ra_size (movAvgCurrent ?s)) (ra_held (movAvgCurrent ?s) @ [500])))
                   (int (length (last_n (ra_size (movAvgCurrent ?s)) (ra_held (movAvgCurrent ?s) @ [500]))))"
    by blast
  have "ra_size (movAvgCurrent ?s) = 16" "ra_held (movAvgCurrent ?s) = []"
    by (simp_all add: sense_init_def avgCount_def ra_new_def ra_held_def)
  then have "iSenseVADC s' = 500" using a by (simp add: last_n_def c_div_nonneg)
  with h s' show ?thesis by blast
qed

lemma sense_init_ring: "ra_inv (movAvgCurrent sense_init) \<and> ra_held (movAvgCurrent sense_init) = []
    \<and> ra_size (movAvgCurrent sense_init) = avgCount"
  by (simp add: sense_init_def avgCount_def ra_new_inv ra_new_held) (simp add: ra_new_def)

lemma senseCurrent_run_init:
  assumes "rs \<noteq> []"
  shows "\<exists>s'. senseCurrent_run sense_init rs = Inr s' \<and>
           iSenseVADC s' = c_div (sum_list (last_n avgCount rs)) (int (length (last_n avgCount rs)))"
proof -
  let ?m0 = "movAvgCurrent sense_init"
  have inv0: "ra_inv ?m0" using sense_init_ring by simp
  from senseCurrent_run_window [OF inv0 assms] obtain s' where
    run: "senseCurrent_run sense_init rs = Inr s'" and m: "movAvgCurrent s' = ra_addValues ?m0 rs"
    and a: "iSenseVADC s' = c_div (ra_sum (movAvgCurrent s')) (int (ra_cnt (movAvgCurrent s')))"
    by blast
  have inv: "ra_inv (movAvgCurrent s')" using m inv0 by (simp add: ra_addValues_inv)
  have "ra_held (movAvgCurrent s') = last_n avgCount rs"
    using m ra_held_addValues [OF inv0, of rs] sense_init_ring by simp
  with a ra_held_sum [OF inv] ra_held_length [OF inv] run show ?thesis by auto
qed

text \<open>
  C5. From start-up, after any non-empty sequence of calls of \<open>senseCurrent\<close>, the
  filtered reading \<open>iSenseVADC\<close> is the truncated mean of the last \<open>avgCount\<close> (16)
  readings, or of all of them while fewer have arrived: the ring buffer with its
  incremental sum and periodic resynchronisation implements a sliding-window mean.
\<close>

theorem senseCurrent_run_average:
  assumes "rs \<noteq> []"
  shows "\<exists>s'. senseCurrent_run sense_init rs = Inr s' \<and>
           iSenseVADC s' = c_div (sum_list (last_n avgCount rs)) (int (length (last_n avgCount rs)))"
  using assms by (rule senseCurrent_run_init)

theorem senseCurrent_run_average_witness:
  "[100, 200, 600::int] \<noteq> [] \<and>
   (\<exists>s'. senseCurrent_run sense_init [100, 200, 600] = Inr s' \<and> iSenseVADC s' = 300)"
  using senseCurrent_run_average [of "[100, 200, 600]"]
  by (simp add: avgCount_def last_n_def c_div_nonneg)

text \<open>
  C10. Filter round trip from any well-formed state: whatever the ring held before,
  \<open>avgCount\<close> (16) calls of \<open>senseCurrent\<close> with the same reading \<open>v\<close> evict every
  older sample and leave the filtered reading \<open>v\<close>.
\<close>

theorem senseCurrent_constant:
  assumes "ra_inv (movAvgCurrent s)" "ra_size (movAvgCurrent s) = avgCount"
  shows "\<exists>s'. senseCurrent_run s (replicate avgCount v) = Inr s' \<and> iSenseVADC s' = v"
proof -
  have "replicate avgCount v \<noteq> []" by (simp add: avgCount_def)
  from senseCurrent_run_window [OF assms(1) this] obtain s' where
    run: "senseCurrent_run s (replicate avgCount v) = Inr s'"
    and m: "movAvgCurrent s' = ra_addValues (movAvgCurrent s) (replicate avgCount v)"
    and a: "iSenseVADC s' = c_div (ra_sum (movAvgCurrent s')) (int (ra_cnt (movAvgCurrent s')))"
    by blast
  have inv: "ra_inv (movAvgCurrent s')" using m assms(1) by (simp add: ra_addValues_inv)
  have "ra_held (movAvgCurrent s') = replicate avgCount v"
    using m ra_held_addValues [OF assms(1), of "replicate avgCount v"] assms(2)
    by (simp add: last_n_def)
  then have "ra_sum (movAvgCurrent s') = int avgCount * v" "ra_cnt (movAvgCurrent s') = avgCount"
    using ra_held_sum [OF inv] ra_held_length [OF inv] by (simp_all add: sum_list_replicate)
  with a run show ?thesis by (simp add: avgCount_def c_div_mult_cancel [of 16, simplified])
qed

theorem senseCurrent_constant_witness:
  "\<exists>s1 s'. senseCurrent sense_init 1000 = Inr s1 \<and>
          senseCurrent_run s1 (replicate avgCount 700) = Inr s' \<and> iSenseVADC s' = 700"
proof -
  have r0: "ra_inv (movAvgCurrent sense_init)" "ra_size (movAvgCurrent sense_init) = avgCount"
    using sense_init_ring by simp_all
  obtain s1 where s1: "senseCurrent sense_init 1000 = Inr s1"
    and m1: "movAvgCurrent s1 = ra_addValue (movAvgCurrent sense_init) 1000"
    using senseCurrent_fast [OF r0(1), of 1000] by simp
  have "ra_inv (movAvgCurrent s1)" "ra_size (movAvgCurrent s1) = avgCount"
    using m1 r0 by (simp_all add: ra_addValue_inv ra_addValue_size)
  from senseCurrent_constant [OF this, of 700] s1 show ?thesis by blast
qed

text \<open>
  C6. In every state the firmware reaches from start-up through any sequence of
  sensing calls (with 10-bit analog readings) the sensing invariant holds, and the
  accumulators \<open>zeroISenseVADC\<close> and \<open>vSenseADC\<close>, including their sums with the five
  new samples, stay within the 16-bit range of an AVR \<open>int\<close>.
\<close>

theorem sense_reach_bounds:
  assumes "sense_reach s" and "\<forall>k<5. adc_ok (rd k)"
  shows "sense_inv s \<and> int16_ok (accum_reads rd 0 5 (vSenseADC s)) \<and>
         int16_ok (accum_reads rd 0 5 (zeroISenseVADC s))"
proof -
  have inv: "sense_inv s" using assms(1) by (rule sense_reach_sense_inv)
  have "vSenseADC s \<le> accum_reads rd 0 5 (vSenseADC s) \<and> accum_reads rd 0 5 (vSenseADC s) \<le> vSenseADC s + 5115"
    "zeroISenseVADC s \<le> accum_reads rd 0 5 (zeroISenseVADC s) \<and>
     accum_reads rd 0 5 (zeroISenseVADC s) \<le> zeroISenseVADC s + 5115"
    using accum_reads_bounds [OF assms(2)] by simp_all
  with inv show ?thesis by (auto simp: int16_ok_def sense_inv_def)
qed

theorem sense_reach_bounds_witness:
  "sense_reach sense_init \<and>
   int16_ok (accum_reads (\<lambda>_. 1023) 0 5 (vSenseADC sense_init))"
proof -
  have h: "\<forall>k<5. adc_ok ((\<lambda>_. 1023::int) k)" by (simp add: adc_ok_def)
  show ?thesis using sense_reach_bounds [OF sense_reach.init h] sense_reach.init h by simp
qed

text \<open>
  C7. No function of \<open>sense.cpp\<close> ever writes \<open>powerA\<close>, so in every reachable state the
  power history is all zeros and \<open>mx\<close> is 0; \<open>trackMPPT\<close> then keeps the duty for zero
  power and asks to increase it otherwise, and its decrease branch is dead.
\<close>

theorem sense_reach_mppt:
  assumes "sense_reach s"
  shows "powerA s = replicate 100 0 \<and> mx s = 0 \<and>
         snd (trackMPPT s) = (if power s = 0 then KeepPWM else IncreasePWM)"
  using sense_reach_history [OF assms] by (simp add: trackMPPT_def Let_def mppt_peak_zeros)

theorem sense_reach_mppt_witness:
  "sense_reach (sensePower sense_init) \<and> snd (trackMPPT (sensePower sense_init)) = KeepPWM"
proof -
  have r: "sense_reach (sensePower sense_init)"
    using sense_reach.step [OF sense_reach.init, of SensePowerOp] by simp
  show ?thesis using sense_reach_mppt [OF r] r by (simp add: sensePower_def sense_init_def)
qed

text \<open>
  C8. Liveness of the voltage filter: from start-up, with the battery reading a constant
  10-bit value \<open>r\<close>, six calls of \<open>senseVoltage\<close> bring \<open>vSenseADC\<close> to a value that
  further calls no longer change, and that value satisfies \<open>4 v \<le> 5 r < 4 v + 5\<close>,
  i.e. the reading settles at about \<open>5 r / 4\<close>.
\<close>

theorem senseVoltage_settles:
  assumes "adc_ok r"
  shows "vSenseADC (senseVoltage (volt_iter 6 r sense_init) (\<lambda>_. r)) = vSenseADC (volt_iter 6 r sense_init) \<and>
         4 * vSenseADC (volt_iter 6 r sense_init) \<le> 5 * r \<and> 5 * r < 4 * vSenseADC (volt_iter 6 r sense_init) + 5"
proof -
  have r: "0 \<le> r" "5 * r - 4 * vSenseADC sense_init \<le> 5115"
    using assms by (simp_all add: adc_ok_def sense_init_def)
  have "(volt_dist_bound ^^ 6) 5115 = 4" by (simp add: volt_dist_bound_def numeral_eq_Suc)
  then have d: "0 \<le> vSenseADC (volt_iter 6 r sense_init) \<and> 4 * vSenseADC (volt_iter 6 r sense_init) \<le> 5 * r \<and>
           5 * r - 4 * vSenseADC (volt_iter 6 r sense_init) \<le> 4"
    using volt_iter_dist [of sense_init r 5115 6] r by (simp add: sense_init_def)
  then show ?thesis using senseVoltage_fix_iff [of "volt_iter 6 r sense_init" r] r by linarith
qed

theorem senseVoltage_settles_witness:
  "adc_ok 740 \<and> vSenseADC (volt_iter 6 740 sense_init) = 924"
proof -
  have h: "adc_ok 740" by (simp add: adc_ok_def)
  have "vSenseADC (volt_iter 6 740 sense_init) = 924"
    by (simp add: numeral_eq_Suc senseVoltage_def sense_init_def model_simps)
  with senseVoltage_settles [OF h] h show ?thesis by simp
qed

text \<open>
  C9. \<open>senseTemperatures\<close> writes \<open>tempC[i]\<close> for every probe index below
  \<open>deviceCount\<close>, but \<open>tempC\<close> has two slots: the call fails, with an out-of-range
  write at index 2, exactly when more than two probes were found.
\<close>

theorem senseTemperatures_out_of_range:
  assumes "length (tempC s) = 2"
  shows "senseTemperatures s rd = Inl e \<longleftrightarrow> 2 < deviceCount s \<and> e = TempIndexOutOfRange 2"
  using temp_loop_Inl [of 0 "tempC s" rd "deviceCount s" e] assms
  by (auto simp: senseTemperatures_def split: sum.splits)

theorem senseTemperatures_out_of_range_witness:
  "length (tempC (sense_init\<lparr>deviceCount := 3\<rparr>)) = 2 \<and>
   senseTemperatures (sense_init\<lparr>deviceCount := 3\<rparr>) (\<lambda>_. 20) = Inl (TempIndexOutOfRange 2)"
proof -
  have h: "length (tempC (sense_init\<lparr>deviceCount := 3\<rparr>)) = 2" by (simp add: sense_init_def)
  show ?thesis using senseTemperatures_out_of_range [OF h, of "\<lambda>_. 20" "TempIndexOutOfRange 2"] h by simp
qed

text \<open>
  C11. The scan of \<open>trackMPPT\<close> sets \<open>mx\<close> to the maximum of its previous value and of
  every history entry truncated to \<open>int\<close>; since \<open>mx\<close> is a global never reset, the
  peak is the largest value seen since start-up, never smaller than before.
\<close>

theorem trackMPPT_peak:
  "mx (fst (trackMPPT s)) = Max (insert (mx s) ((\<lambda>p. of_int (c_trunc p)) ` set (powerA s))) \<and>
   mx s \<le> mx (fst (trackMPPT s))"
  by (simp add: trackMPPT_def Let_def mppt_peak_Max)

text \<open>
  C12. Calibration: called on the zero-initialised global \<open>zeroISenseVADC\<close>,
  \<open>senseZeroCurrent\<close> stores the truncated mean of its five current readings.
\<close>

theorem senseZeroCurrent_first:
  assumes "zeroISenseVADC s = 0" and "\<forall>k<5. adc_ok (rd k)"
  shows "zeroISenseVADC (senseZeroCurrent s rd) = (rd 0 + rd 1 + rd 2 + rd 3 + rd 4) div 5"
proof -
  have "0 \<le> rd 0 + rd 1 + rd 2 + rd 3 + rd 4"
    using assms(2) by (simp add: adc_ok_def eval_nat_numeral less_Suc_eq)
  with assms(1) show ?thesis by (simp add: senseZeroCurrent_def accum_reads_5 c_div_nonneg)
qed

theorem senseZeroCurrent_first_witness:
  "zeroISenseVADC sense_init = 0 \<and>
   zeroISenseVADC (senseZeroCurrent sense_init (\<lambda>k. 510 + int k)) = 512"
proof -
  have h: "zeroISenseVADC sense_init = 0" "\<forall>k<5. adc_ok ((\<lambda>k. 510 + int k) k)"
    by (simp_all add: sense_init_def adc_ok_def)
  show ?thesis using senseZeroCurrent_first [OF h] h by simp
qed

text \<open>
  C13. Re-calibration is biased: \<open>senseZeroCurrent\<close> does not clear \<open>zeroISenseVADC\<close>
  before accumulating, so against a constant zero-load reading \<open>r\<close> it stores
  \<open>r\<close> plus a fifth of the previous offset, not \<open>r\<close>, whenever that offset is 5 or more.
\<close>

theorem senseZeroCurrent_rezero:
  assumes "0 \<le> zeroISenseVADC s" "adc_ok r"
  shows "zeroISenseVADC (senseZeroCurrent s (\<lambda>_. r)) = r + zeroISenseVADC s div 5"
  using assms by (simp add: senseZeroCurrent_def accum_reads_const c_div_nonneg adc_ok_def)


theorem senseZeroCurrent_rezero_witness:
  "zeroISenseVADC (senseZeroCurrent (senseZeroCurrent sense_init (\<lambda>_. 512)) (\<lambda>_. 512)) = 614"
proof -
  have h: "0 \<le> zeroISenseVADC (senseZeroCurrent sense_init (\<lambda>_. 512))" "adc_ok 512"
    by (simp_all add: senseZeroCurrent_def sense_init_def model_simps adc_ok_def)
  have "zeroISenseVADC (senseZeroCurrent sense_init (\<lambda>_. 512)) = 512"
    by (simp add: senseZeroCurrent_def sense_init_def model_simps)
  with senseZeroCurrent_rezero [OF h] show ?thesis by simp
qed

text \<open>
  C14. \<open>sumCounter\<close> is a 16-bit \<open>unsigned int\<close> that every call of
  \<open>senseCurrent\<close> increments once: after any run of calls on a well-formed filter it
  has advanced by the number of calls modulo \<open>2^16\<close>, so it wraps around instead of
  being reset, and the value 65535 that triggers the full recomputation recurs every
  65536 calls.
\<close>

theorem senseCurrent_counter_wrap:
  assumes "ra_inv (movAvgCurrent s)"
  shows "\<exists>s'. senseCurrent_run s rs = Inr s' \<and>
           unat (sumCounter s') = (unat (sumCounter s) + length rs) mod 65536"
proof (cases "rs = []")
  case True
  have "unat (sumCounter s) < 65536" using unsigned_less [of "sumCounter s"] by simp
  with True show ?thesis by simp
next
  case False
  from senseCurrent_run_window [OF assms False] obtain s' where
    "senseCurrent_run s rs = Inr s'" "sumCounter s' = sumCounter s + of_nat (length rs)"
    by blast
  then show ?thesis by (simp add: unat_add_of_nat_16)
qed

theorem senseCurrent_counter_wrap_witness:
  "\<exists>s'. senseCurrent_run sense_init (replicate 65537 7) = Inr s' \<and> unat (sumCounter s') = 1"
proof -
  have h: "ra_inv (movAvgCurrent sense_init)" using sense_init_ring by simp
  from senseCurrent_counter_wrap [OF h, of "replicate 65537 7"] show ?thesis by (simp add: sense_init_def)
qed

lemma senseTemperatures_frame:
  "senseTemperatures s rd = Inr s' \<Longrightarrow>
     movAvgCurrent s' = movAvgCurrent s \<and> sumCounter s' = sumCounter s \<and>
     deviceCount s' = deviceCount s \<and> length (tempC s') = length (tempC s)"
  by (auto simp: senseTemperatures_def dest: temp_loop_length split: sum.splits)

lemma senseTemperatures_Inr:
  "senseTemperatures s rd = Inr s' \<Longrightarrow>
     \<exists>ts. s' = s\<lparr>tempC := ts, senseSamples := max 0 (deviceCount s)\<rparr>"
  by (auto simp: senseTemperatures_def split: sum.splits)

lemma senseCurrent_current:
  "senseCurrent s r = Inr s' \<Longrightarrow>
     current s' = conversionFactor * of_int (iSenseVADC s' - zeroISenseVADC s') * 19500 \<and>
     voltage s' = voltage s \<and> vSenseADC s' = vSenseADC s"
  by (auto simp: senseCurrent_def Let_def split: if_splits option.splits)

lemma current_bounds:
  assumes "adc_ok a" "0 \<le> z" "z \<le> 1278"
  shows "conversionFactor * (- 1278) * 19500 \<le> conversionFactor * of_int (a - z) * 19500 \<and>
         conversionFactor * of_int (a - z) * 19500 \<le> conversionFactor * 1023 * 19500"
proof -
  have "(- 1278 :: real) \<le> of_int (a - z)" "of_int (a - z) \<le> (1023 :: real)"
    using assms by (simp_all add: adc_ok_def)
  then show ?thesis by (simp add: conversionFactor_def)
qed

lemma sense_reach_phys: "sense_reach s \<Longrightarrow> phys_ok s"
proof (induction rule: sense_reach.induct)
  case init
  show ?case by (simp add: phys_ok_def sense_init_def conversionFactor_def)
next
  case (step s e s')
  have inv': "sense_inv s'" using sense_reach.step [OF step.hyps] by (rule sense_reach_sense_inv)
  show ?case
  proof (cases e)
    case (SenseCurrentOp r)
    with step.hyps(3) have "senseCurrent s r = Inr s'" by simp
    from senseCurrent_current [OF this] current_bounds [of "iSenseVADC s'" "zeroISenseVADC s'"] inv' step.IH
    show ?thesis by (simp add: phys_ok_def sense_inv_def)
  next
    case (SenseTemps rd)
    with step.hyps(3) step.IH show ?thesis
      by (auto simp: phys_ok_def dest!: senseTemperatures_Inr)
  qed (use step.hyps(3) step.IH in \<open>auto simp: phys_ok_def configureTempSensors_def senseZeroCurrent_def
         senseVoltage_def sensePower_def trackMPPT_def Let_def\<close>)
qed

lemma senseTemperatures_total:
  assumes "length (tempC s) = 2" "deviceCount s \<le> 2"
  shows "\<exists>s'. senseTemperatures s rd = Inr s'"
proof (cases "temp_loop rd (deviceCount s) 0 (tempC s)")
  case (Inl e)
  with temp_loop_Inl [of 0 "tempC s" rd "deviceCount s" e] assms show ?thesis by simp
next
  case (Inr ts)
  then show ?thesis by (simp add: senseTemperatures_def)
qed

text \<open>
  C18. Equivalence of the optimised filter read with its reference: on a well-formed
  filter, \<open>senseCurrent\<close>, which takes the O(1) running-sum average on all calls but
  the one where the counter reaches 65535, behaves exactly like \<open>senseCurrent_ref\<close>,
  which re-sums the whole ring on every call.
\<close>

theorem senseCurrent_eq_ref:
  assumes "ra_inv (movAvgCurrent s)"
  shows "senseCurrent s r = senseCurrent_ref s r"
proof -
  have inv: "ra_inv (ra_addValue (movAvgCurrent s) r)" using assms by (rule ra_addValue_inv)
  show ?thesis
    using ra_fast_full_eq [OF inv]
    by (cases "ra_getFastAverage (ra_addValue (movAvgCurrent s) r)")
       (simp_all add: senseCurrent_def senseCurrent_ref_def Let_def)
qed

theorem senseCurrent_eq_ref_witness:
  "ra_inv (movAvgCurrent sense_init) \<and> senseCurrent sense_init 300 = senseCurrent_ref sense_init 300"
  using senseCurrent_eq_ref [of sense_init 300] sense_init_ring by simp

text \<open>
  C19. Error behaviour of \<open>senseCurrent\<close>: it fails (the library's average is
  \<open>NAN\<close>) exactly when the moving-average object has no storage and no samples, the
  state \<open>RunningAverage\<close> is left in when its buffer allocation fails; with any storage
  the call succeeds.
\<close>

theorem senseCurrent_error_iff:
  "senseCurrent s r = Inl e \<longleftrightarrow>
     ra_size (movAvgCurrent s) = 0 \<and> ra_cnt (movAvgCurrent s) = 0 \<and> e = NanAverage"
  by (auto simp: senseCurrent_def ra_addValue_def ra_getFastAverage_def ra_getAverage_def Let_def
      split: if_splits)

text \<open>
  C26. Range of the physical-unit globals: in every reachable state \<open>voltage\<close> is
  \<open>vSenseADC \<cdot> 44.8 / 1024\<close>, between 0 and \<open>1278 \<cdot> 44.8 / 1024 \<approx> 55.9\<close> V, and
  \<open>current\<close> lies between \<open>-1278\<close> and \<open>1023\<close> ADC steps times the conversion
  factor (about \<open>-121.7\<close> to \<open>97.4\<close> A). The voltage bound lies above the 44.8 V full
  scale of the front end, and it is reached: two calls of \<open>senseVoltage\<close> at the
  full-scale reading already report more than 44.8 V.
\<close>

theorem sense_reach_phys_bounds:
  assumes "sense_reach s"
  shows "0 \<le> voltage s \<and> voltage s \<le> 1278 * (44.8 / 1024) \<and>
         - (1278 * conversionFactor * 19500) \<le> current s \<and> current s \<le> 1023 * conversionFactor * 19500"
proof -
  have "phys_ok s" "sense_inv s" using assms by (simp_all add: sense_reach_phys sense_reach_sense_inv)
  then show ?thesis by (auto simp: phys_ok_def sense_inv_def)
qed

theorem sense_reach_phys_bounds_witness:
  "sense_reach (senseVoltage (senseVoltage sense_init (\<lambda>_. 1023)) (\<lambda>_. 1023)) \<and>
   44.8 < voltage (senseVoltage (senseVoltage sense_init (\<lambda>_. 1023)) (\<lambda>_. 1023)) \<and>
   voltage (senseVoltage (senseVoltage sense_init (\<lambda>_. 1023)) (\<lambda>_. 1023)) \<le> 1278 * (44.8 / 1024)"
proof -
  have ok: "op_ok (SenseVoltageOp (\<lambda>_. 1023))" by (simp add: adc_ok_def)
  have r: "sense_reach (senseVoltage (senseVoltage sense_init (\<lambda>_. 1023)) (\<lambda>_. 1023))"
    using sense_reach.step [OF sense_reach.step [OF sense_reach.init ok] ok] by simp
  have "44.8 < voltage (senseVoltage (senseVoltage sense_init (\<lambda>_. 1023)) (\<lambda>_. 1023))"
    by (simp add: senseVoltage_def sense_init_def model_simps)
  with sense_reach_phys_bounds [OF r] r show ?thesis by simp
qed
text \<open>
  C29. The spec's monotonic-climb property does not hold of the code: with the present
  power pushed as the newest entry of a non-decreasing history of non-negative whole
  powers (the data flow of spec sections 3 and 4.1), and no larger earlier peak in
  \<open>mx\<close>, the scan's peak is the present power itself, so \<open>trackMPPT\<close> keeps the
  duty instead of increasing it.
\<close>

theorem trackMPPT_climb_keeps:
  assumes "sorted (powerA s)" "\<forall>p\<in>set (powerA s). 0 \<le> p" "powerA s \<noteq> []"
    "power s = last (powerA s)" "power s = of_int k" "mx s \<le> power s"
  shows "snd (trackMPPT s) = KeepPWM"
proof -
  have mem: "power s \<in> insert (mx s) ((\<lambda>p. of_int (c_trunc p)) ` set (powerA s))"
  proof -
    have "last (powerA s) \<in> set (powerA s)" using assms(3) by simp
    moreover have "of_int (c_trunc (last (powerA s))) = power s" using assms(4,5) by (metis c_trunc_of_int)
    ultimately show ?thesis by (metis image_eqI insertI2)
  qed
  have le: "x \<le> power s" if "x \<in> insert (mx s) ((\<lambda>p. of_int (c_trunc p)) ` set (powerA s))" for x
    using that assms(1,2,4,6) c_trunc_nonneg_le sorted_le_last order_trans by fastforce
  have "mppt_peak (powerA s) (mx s) = power s"
    unfolding mppt_peak_Max by (rule Max_eqI) (use mem le in auto)
  then show ?thesis by (simp add: trackMPPT_def Let_def)
qed

theorem trackMPPT_climb_keeps_witness:
  "sorted (powerA (sense_init\<lparr>powerA := [1, 2, 3], power := 3\<rparr>)) \<and>
   snd (trackMPPT (sense_init\<lparr>powerA := [1, 2, 3], power := 3\<rparr>)) = KeepPWM"
proof -
  have h: "sorted (powerA (sense_init\<lparr>powerA := [1, 2, 3], power := 3\<rparr>))"
    "\<forall>p\<in>set (powerA (sense_init\<lparr>powerA := [1, 2, 3], power := 3\<rparr>)). 0 \<le> p"
    "powerA (sense_init\<lparr>powerA := [1, 2, 3], power := 3\<rparr>) \<noteq> []"
    "power (sense_init\<lparr>powerA := [1, 2, 3], power := 3\<rparr>) = last (powerA (sense_init\<lparr>powerA := [1, 2, 3], power := 3\<rparr>))"
    "power (sense_init\<lparr>powerA := [1, 2, 3], power := 3\<rparr>) = of_int 3"
    "mx (sense_init\<lparr>powerA := [1, 2, 3], power := 3\<rparr>) \<le> power (sense_init\<lparr>powerA := [1, 2, 3], power := 3\<rparr>)"
    by (simp_all add: sense_init_def)
  show ?thesis using trackMPPT_climb_keeps [OF h] h(1) by simp
qed
end
