(* ===== verification/Protections.thy ===== *)
theory Protections
  imports Sense
begin

text \<open>
  The protection rules of \<open>src/Motor Controller Firmware/src/modules/protections.cpp\<close>,
  function \<open>checkProtections\<close>. The three rules are compiled in or out by the macros
  \<open>MINIMUM_DUTY_DETECTION\<close>, \<open>OVERCURRENT_PROTECTION\<close> and
  \<open>OVERVOLTAGE_PREVENTION\<close>; the model takes them as a configuration record, and a
  rule compiled out leaves the duty and its flag untouched. The global \<open>duty\<close> is
  declared outside the repository, so its type is a parameter \<open>'d\<close> of class
  \<open>ring_1\<close>: \<open>int\<close> for an unbounded reading, \<open>8 word\<close> for a byte-wide PWM
  register whose \<open>duty -= 2\<close> wraps around. The rules read the sensing globals
  \<open>iSenseVADC\<close>, \<open>zeroISenseVADC\<close> and \<open>vSenseADC\<close> of \<open>Sense.sense_state\<close>.
\<close>

record prot_config =
  MINIMUM_DUTY_DETECTION :: bool
  OVERCURRENT_PROTECTION :: bool
  OVERVOLTAGE_PREVENTION :: bool

record 'd prot_state =
  duty :: 'd
  mddActive :: bool
  ocpActive :: bool
  ovpActive :: bool

definition default_config :: prot_config where
  "default_config =
     \<lparr>MINIMUM_DUTY_DETECTION = True, OVERCURRENT_PROTECTION = True, OVERVOLTAGE_PREVENTION = True\<rparr>"

definition prot_init :: "'d \<Rightarrow> 'd prot_state" where
  "prot_init d = \<lparr>duty = d, mddActive = False, ocpActive = False, ovpActive = False\<rparr>"

definition check_mdd :: "sense_state \<Rightarrow> ('d::ring_1) prot_state \<Rightarrow> 'd prot_state" where
  "check_mdd s p =
     (if iSenseVADC s < zeroISenseVADC s then p\<lparr>duty := duty p + 1, mddActive := True\<rparr>
      else p\<lparr>mddActive := False\<rparr>)"

definition check_ocp :: "sense_state \<Rightarrow> ('d::ring_1) prot_state \<Rightarrow> 'd prot_state" where
  "check_ocp s p =
     (if iSenseVADC s > 454 then p\<lparr>duty := duty p - 2, ocpActive := True\<rparr>
      else p\<lparr>ocpActive := False\<rparr>)"

definition check_ovp :: "sense_state \<Rightarrow> ('d::ring_1) prot_state \<Rightarrow> 'd prot_state" where
  "check_ovp s p =
     (if vSenseADC s > 845 then p\<lparr>duty := duty p + 2, ovpActive := True\<rparr>
      else p\<lparr>ovpActive := False\<rparr>)"

definition checkProtections :: "prot_config \<Rightarrow> sense_state \<Rightarrow> ('d::ring_1) prot_state \<Rightarrow> 'd prot_state" where
  "checkProtections cfg s p =
     (let p1 = (if MINIMUM_DUTY_DETECTION cfg then check_mdd s p else p);
          p2 = (if OVERCURRENT_PROTECTION cfg then check_ocp s p1 else p1)
      in if OVERVOLTAGE_PREVENTION cfg then check_ovp s p2 else p2)"

lemmas prot_rule_defs = check_mdd_def check_ocp_def check_ovp_def

text \<open>
  C1. One call of \<open>checkProtections\<close> changes the duty by the sum of the enabled rules'
  adjustments, in the order of the code: \<open>+1\<close> when the filtered current is strictly
  below the zero-current offset, \<open>-2\<close> when it is strictly above 454, \<open>+2\<close> when the
  voltage reading is strictly above 845; rules that fire together compound.
\<close>

theorem checkProtections_duty:
  "duty (checkProtections cfg s p) =
     duty p
     + (if MINIMUM_DUTY_DETECTION cfg \<and> iSenseVADC s < zeroISenseVADC s then 1 else 0)
     - (if OVERCURRENT_PROTECTION cfg \<and> 454 < iSenseVADC s then 2 else 0)
     + (if OVERVOLTAGE_PREVENTION cfg \<and> 845 < vSenseADC s then 2 else 0)"
  by (simp add: checkProtections_def prot_rule_defs Let_def)

text \<open>
  C2. Each enabled rule sets its flag exactly when its strict threshold condition holds
  on the present readings, whatever the flag was before (no hysteresis): a reading
  exactly at 454 or 845 leaves the flag false. A rule compiled out keeps its flag.
\<close>

theorem checkProtections_flags:
  "mddActive (checkProtections cfg s p) =
     (if MINIMUM_DUTY_DETECTION cfg then iSenseVADC s < zeroISenseVADC s else mddActive p) \<and>
   ocpActive (checkProtections cfg s p) =
     (if OVERCURRENT_PROTECTION cfg then 454 < iSenseVADC s else ocpActive p) \<and>
   ovpActive (checkProtections cfg s p) =
     (if OVERVOLTAGE_PREVENTION cfg then 845 < vSenseADC s else ovpActive p)"
  by (simp add: checkProtections_def prot_rule_defs Let_def)

end
