(* ===== verification/ControlLoop.thy ===== *)
theory ControlLoop
  imports Protections
begin

text \<open>
  The control loop that drives the sensing and protection functions. The loop itself and
  the \<open>NonBlockingTask\<close> class whose objects \<open>sense.cpp\<close> declares
  (\<open>iSenseUpdate(1)\<close>, \<open>vSenseUpdate(10)\<close>, \<open>pSenseUpdate(100)\<close>,
  \<open>tempUpdate(1000)\<close>) are not in the repository; they are modelled from spec section 5:
  a task is due when its period has elapsed since it last ran, and consuming a due task
  records the present time. One tick polls the tasks in a fixed order, runs the due
  sensing functions, then the protection engine, then the power tracker (protection
  before optimisation). Time is a natural number of milliseconds (the wrap-around of the
  32-bit \<open>millis()\<close> is not modelled: the scheduler is not in the repository and the
  spec does not fix how it computes elapsed time). \<open>ctrl_run_sched_rule\<close> carries any
  property that each tick preserves along ticks at consecutive milliseconds.
\<close>

record task =
  period :: nat
  last_run :: nat

record 'd ctrl =
  sense_st :: sense_state
  prot_st :: "'d prot_state"
  tI :: task
  tV :: task
  tP :: task
  tT :: task

record tick_input =
  in_now :: nat
  in_current :: adc
  in_volt :: reads
  in_temp :: "nat \<Rightarrow> real"

definition isDue :: "task \<Rightarrow> nat \<Rightarrow> bool \<times> task" where
  "isDue t now = (if period t \<le> now - last_run t then (True, t\<lparr>last_run := now\<rparr>) else (False, t))"

definition new_task :: "nat \<Rightarrow> task" where
  "new_task p = \<lparr>period = p, last_run = 0\<rparr>"

definition ctrl_init :: "'d \<Rightarrow> 'd ctrl" where
  "ctrl_init d =
     \<lparr>sense_st = sense_init, prot_st = prot_init d, tI = new_task 1, tV = new_task 10,
      tP = new_task 100, tT = new_task 1000\<rparr>"

definition ctrl_tick ::
  "prot_config \<Rightarrow> tick_input \<Rightarrow> ('d::ring_1) ctrl \<Rightarrow> sense_error + 'd ctrl" where
  "ctrl_tick cfg i c =
     (let (dI, tI') = isDue (tI c) (in_now i);
          (dV, tV') = isDue (tV c) (in_now i);
          (dP, tP') = isDue (tP c) (in_now i);
          (dT, tT') = isDue (tT c) (in_now i)
      in case (if dI then senseCurrent (sense_st c) (in_current i) else Inr (sense_st c)) of
           Inl e \<Rightarrow> Inl e
         | Inr s1 \<Rightarrow>
             (let s2 = (if dV then senseVoltage s1 (in_volt i) else s1);
                  s3 = (if dP then sensePower s2 else s2)
              in case (if dT then senseTemperatures s3 (in_temp i) else Inr s3) of
                   Inl e \<Rightarrow> Inl e
                 | Inr s4 \<Rightarrow>
                     Inr (c\<lparr>sense_st := (if dP then fst (trackMPPT s4) else s4),
                            prot_st := checkProtections cfg s4 (prot_st c),
                            tI := tI', tV := tV', tP := tP', tT := tT'\<rparr>)))"

definition input_ok :: "tick_input \<Rightarrow> bool" where
  "input_ok i \<longleftrightarrow> adc_ok (in_current i) \<and> (\<forall>k<5. adc_ok (in_volt i k))"

inductive ctrl_reach :: "prot_config \<Rightarrow> ('d::ring_1) ctrl \<Rightarrow> bool" for cfg where
  init: "ctrl_reach cfg (ctrl_init d)"
| tick: "ctrl_reach cfg c \<Longrightarrow> input_ok i \<Longrightarrow> ctrl_tick cfg i c = Inr c' \<Longrightarrow> ctrl_reach cfg c'"

fun ctrl_run :: "prot_config \<Rightarrow> tick_input list \<Rightarrow> ('d::ring_1) ctrl \<Rightarrow> sense_error + 'd ctrl" where
  "ctrl_run cfg [] c = Inr c"
| "ctrl_run cfg (i # is) c = (case ctrl_tick cfg i c of Inl e \<Rightarrow> Inl e | Inr c' \<Rightarrow> ctrl_run cfg is c')"

definition loop_ok :: "'d ctrl \<Rightarrow> bool" where
  \<comment> \<open>a well-formed filter, at most two probes, a 1 ms current task\<close>
  "loop_ok c \<longleftrightarrow>
     ra_inv (movAvgCurrent (sense_st c)) \<and> length (tempC (sense_st c)) = 2 \<and>
     deviceCount (sense_st c) \<le> 2 \<and> period (tI c) = 1"

definition sched_ok :: "nat \<Rightarrow> 'd ctrl \<Rightarrow> bool" where
  \<comment> \<open>the tasks of \<open>ctrl_init\<close> after ticks at every millisecond up to \<open>t\<close>\<close>
  "sched_ok t c \<longleftrightarrow>
     last_run (tI c) = t \<and>
     period (tV c) = 10 \<and> last_run (tV c) = 10 * (t div 10) \<and>
     period (tP c) = 100 \<and> last_run (tP c) = 100 * (t div 100) \<and>
     period (tT c) = 1000 \<and> last_run (tT c) = 1000 * (t div 1000)"

lemma sense_reach_cond:
  "sense_reach s \<Longrightarrow> op_ok e \<Longrightarrow> (if b then sense_step s e else Inr s) = Inr s' \<Longrightarrow> sense_reach s'"
  by (cases b) (auto intro: sense_reach.step)

lemma ctrl_tick_cases:
  assumes "ctrl_tick cfg i c = Inr c'"
  obtains dI dV dP dT s1 s4 where
    "(if dI then senseCurrent (sense_st c) (in_current i) else Inr (sense_st c)) = Inr s1"
    "(if dT then senseTemperatures (if dP then sensePower (if dV then senseVoltage s1 (in_volt i) else s1)
                                    else (if dV then senseVoltage s1 (in_volt i) else s1)) (in_temp i)
      else Inr (if dP then sensePower (if dV then senseVoltage s1 (in_volt i) else s1)
                else (if dV then senseVoltage s1 (in_volt i) else s1))) = Inr s4"
    "sense_st c' = (if dP then fst (trackMPPT s4) else s4)"
    "prot_st c' = checkProtections cfg s4 (prot_st c)"
  using assms
  by (auto simp: ctrl_tick_def Let_def split: prod.split_asm sum.split_asm intro: that)

lemma ctrl_reach_sense_reach:
  assumes "ctrl_reach cfg c"
  shows "sense_reach (sense_st c)"
  using assms
proof (induction rule: ctrl_reach.induct)
  case (init d)
  show ?case by (simp add: ctrl_init_def sense_reach.init)
next
  case (tick c i c')
  from tick.hyps(3) obtain dI dV dP dT s1 s4 where
    h1: "(if dI then senseCurrent (sense_st c) (in_current i) else Inr (sense_st c)) = Inr s1"
    and h2: "(if dT then senseTemperatures (if dP then sensePower (if dV then senseVoltage s1 (in_volt i) else s1)
                                    else (if dV then senseVoltage s1 (in_volt i) else s1)) (in_temp i)
      else Inr (if dP then sensePower (if dV then senseVoltage s1 (in_volt i) else s1)
                else (if dV then senseVoltage s1 (in_volt i) else s1))) = Inr s4"
    and h3: "sense_st c' = (if dP then fst (trackMPPT s4) else s4)"
    by (rule ctrl_tick_cases)
  have ok: "op_ok (SenseCurrentOp (in_current i))" "op_ok (SenseVoltageOp (in_volt i))"
    using tick.hyps(2) by (simp_all add: input_ok_def)
  let ?s2 = "if dV then senseVoltage s1 (in_volt i) else s1"
  let ?s3 = "if dP then sensePower ?s2 else ?s2"
  have "(if dI then sense_step (sense_st c) (SenseCurrentOp (in_current i)) else Inr (sense_st c)) = Inr s1"
    using h1 by (cases dI) simp_all
  then have r1: "sense_reach s1" by (rule sense_reach_cond [OF tick.IH ok(1)])
  have "(if dV then sense_step s1 (SenseVoltageOp (in_volt i)) else Inr s1) = Inr ?s2"
    by (cases dV) simp_all
  then have r2: "sense_reach ?s2" by (rule sense_reach_cond [OF r1 ok(2)])
  have "(if dP then sense_step ?s2 SensePowerOp else Inr ?s2) = Inr ?s3"
    by (cases dP) simp_all
  then have r3: "sense_reach ?s3" by (rule sense_reach_cond [OF r2, of SensePowerOp, simplified])
  have "(if dT then sense_step ?s3 (SenseTemps (in_temp i)) else Inr ?s3) = Inr s4"
    using h2 by (cases dT) simp_all
  then have r4: "sense_reach s4" by (rule sense_reach_cond [OF r3, of "SenseTemps (in_temp i)", simplified])
  have "(if dP then sense_step s4 TrackMPPTOp else Inr s4) = Inr (sense_st c')"
    using h3 by (cases dP) simp_all
  then show ?case by (rule sense_reach_cond [OF r4, of TrackMPPTOp, simplified])
qed

text \<open>
  C15. Protection before optimisation: in every tick the protection engine biases the
  duty on the readings just sensed, and the power tracker that runs after it changes
  nothing but \<open>mx\<close>: neither the duty and flags nor the readings protection used.
\<close>

theorem ctrl_tick_protection_first:
  assumes "ctrl_tick cfg i c = Inr c'"
  shows "\<exists>s. prot_st c' = checkProtections cfg s (prot_st c) \<and>
             sense_st c' = s\<lparr>mx := mx (sense_st c')\<rparr>"
proof -
  from assms obtain dI dV dP dT s1 s4 where
    "sense_st c' = (if dP then fst (trackMPPT s4) else s4)"
    "prot_st c' = checkProtections cfg s4 (prot_st c)"
    by (rule ctrl_tick_cases)
  then show ?thesis by (intro exI [of _ s4]) (auto simp: trackMPPT_def Let_def)
qed

theorem ctrl_tick_protection_first_witness:
  "\<exists>c'. ctrl_tick default_config
            \<lparr>in_now = 1, in_current = 500, in_volt = \<lambda>_. 740, in_temp = \<lambda>_. 20\<rparr> (ctrl_init (0::int)) = Inr c' \<and>
        (\<exists>s. prot_st c' = checkProtections default_config s (prot_st (ctrl_init (0::int))) \<and>
             sense_st c' = s\<lparr>mx := mx (sense_st c')\<rparr>)"
proof -
  have "\<exists>c'. ctrl_tick default_config
            \<lparr>in_now = 1, in_current = 500, in_volt = \<lambda>_. 740, in_temp = \<lambda>_. 20\<rparr> (ctrl_init (0::int)) = Inr c'"
    by (simp add: ctrl_tick_def isDue_def ctrl_init_def new_task_def senseCurrent_def sense_init_def
        ra_new_def ra_addValue_def ra_getFastAverage_def avgCount_def Let_def)
  then obtain c' where
    h: "ctrl_tick default_config
          \<lparr>in_now = 1, in_current = 500, in_volt = \<lambda>_. 740, in_temp = \<lambda>_. 20\<rparr> (ctrl_init (0::int)) = Inr c'"
    by blast
  show ?thesis using ctrl_tick_protection_first [OF h] h by blast
qed

lemma ctrl_tick_current:
  assumes ok: "loop_ok c" and due: "last_run (tI c) < in_now i"
  shows "\<exists>c'. ctrl_tick cfg i c = Inr c' \<and> loop_ok c' \<and>
           sumCounter (sense_st c') = sumCounter (sense_st c) + 1 \<and> last_run (tI c') = in_now i \<and>
           tV c' = snd (isDue (tV c) (in_now i)) \<and> tP c' = snd (isDue (tP c) (in_now i)) \<and>
           tT c' = snd (isDue (tT c) (in_now i)) \<and>
           prot_st c' = checkProtections cfg (sense_st c') (prot_st c)"
proof -
  let ?s0 = "sense_st c"
  have I: "isDue (tI c) (in_now i) = (True, (tI c)\<lparr>last_run := in_now i\<rparr>)"
    using ok due by (simp add: isDue_def loop_ok_def)
  obtain dV tV' where V: "isDue (tV c) (in_now i) = (dV, tV')" by (cases "isDue (tV c) (in_now i)")
  obtain dP tP' where P: "isDue (tP c) (in_now i) = (dP, tP')" by (cases "isDue (tP c) (in_now i)")
  obtain dT tT' where T: "isDue (tT c) (in_now i) = (dT, tT')" by (cases "isDue (tT c) (in_now i)")
  have ri: "ra_inv (movAvgCurrent ?s0)" using ok by (simp add: loop_ok_def)
  obtain s1 where s1: "senseCurrent ?s0 (in_current i) = Inr s1"
    and f1: "movAvgCurrent s1 = ra_addValue (movAvgCurrent ?s0) (in_current i)"
      "sumCounter s1 = sumCounter ?s0 + 1" "tempC s1 = tempC ?s0" "deviceCount s1 = deviceCount ?s0"
    using senseCurrent_fast [OF ri, of "in_current i"] by simp
  define s3 where "s3 = (if dP then sensePower (if dV then senseVoltage s1 (in_volt i) else s1)
                         else (if dV then senseVoltage s1 (in_volt i) else s1))"
  have f3: "movAvgCurrent s3 = movAvgCurrent s1" "sumCounter s3 = sumCounter s1"
    "tempC s3 = tempC s1" "deviceCount s3 = deviceCount s1"
    by (simp_all add: s3_def senseVoltage_def sensePower_def Let_def)
  obtain s4 where s4: "(if dT then senseTemperatures s3 (in_temp i) else Inr s3) = Inr s4"
    using senseTemperatures_total [of s3 "in_temp i"] ok f1 f3 by (cases dT) (auto simp: loop_ok_def)
  have f34: "movAvgCurrent s4 = movAvgCurrent s3 \<and> sumCounter s4 = sumCounter s3 \<and>
      deviceCount s4 = deviceCount s3 \<and> length (tempC s4) = length (tempC s3)"
  proof (cases dT)
    case True
    with s4 have "senseTemperatures s3 (in_temp i) = Inr s4" by simp
    then show ?thesis by (rule senseTemperatures_frame)
  next
    case False
    with s4 show ?thesis by simp
  qed
  have f4: "movAvgCurrent s4 = movAvgCurrent s1" "sumCounter s4 = sumCounter s1"
    "length (tempC s4) = 2" "deviceCount s4 = deviceCount ?s0"
    using f34 f1 f3 ok by (simp_all add: loop_ok_def)
  let ?c' = "c\<lparr>sense_st := (if dP then fst (trackMPPT s4) else s4),
               prot_st := checkProtections cfg s4 (prot_st c),
               tI := (tI c)\<lparr>last_run := in_now i\<rparr>, tV := tV', tP := tP', tT := tT'\<rparr>"
  have "ctrl_tick cfg i c = Inr ?c'"
    using I V P T s1 s4 unfolding ctrl_tick_def s3_def by (simp add: Let_def)
  moreover have "loop_ok ?c' \<and> sumCounter (sense_st ?c') = sumCounter ?s0 + 1"
    using f1 f4 ok ri by (simp add: loop_ok_def trackMPPT_def Let_def ra_addValue_inv)
  moreover have "checkProtections cfg (sense_st ?c') (prot_st c) = checkProtections cfg s4 (prot_st c)"
    by (simp add: trackMPPT_def Let_def checkProtections_def prot_rule_defs)
  ultimately show ?thesis using V P T by auto
qed

lemma ctrl_tick_sense:
  assumes tick: "ctrl_tick cfg i c = Inr c'"
  shows "vSenseADC (sense_st c') =
           (if fst (isDue (tV c) (in_now i))
            then c_div (accum_reads (in_volt i) 0 5 (vSenseADC (sense_st c))) 5
            else vSenseADC (sense_st c)) \<and>
         power (sense_st c') =
           (if fst (isDue (tP c) (in_now i)) then voltage (sense_st c') * current (sense_st c')
            else power (sense_st c)) \<and>
         zeroISenseVADC (sense_st c') = zeroISenseVADC (sense_st c) \<and>
         prot_st c' = checkProtections cfg (sense_st c') (prot_st c)"
proof -
  obtain dI tI' where I: "isDue (tI c) (in_now i) = (dI, tI')" by (cases "isDue (tI c) (in_now i)")
  obtain dV tV' where V: "isDue (tV c) (in_now i) = (dV, tV')" by (cases "isDue (tV c) (in_now i)")
  obtain dP tP' where P: "isDue (tP c) (in_now i) = (dP, tP')" by (cases "isDue (tP c) (in_now i)")
  obtain dT tT' where T: "isDue (tT c) (in_now i) = (dT, tT')" by (cases "isDue (tT c) (in_now i)")
  define s0 where "s0 = sense_st c"
  obtain s1 s3 s4 where s1: "(if dI then senseCurrent s0 (in_current i) else Inr s0) = Inr s1"
    and s3: "s3 = (if dP then sensePower (if dV then senseVoltage s1 (in_volt i) else s1)
                   else (if dV then senseVoltage s1 (in_volt i) else s1))"
    and s4: "(if dT then senseTemperatures s3 (in_temp i) else Inr s3) = Inr s4"
    and c': "c' = c\<lparr>sense_st := (if dP then fst (trackMPPT s4) else s4),
                    prot_st := checkProtections cfg s4 (prot_st c),
                    tI := tI', tV := tV', tP := tP', tT := tT'\<rparr>"
    using tick unfolding ctrl_tick_def I V P T s0_def
    by (auto simp: Let_def split: sum.split_asm)
  have v1: "vSenseADC s1 = vSenseADC s0 \<and> power s1 = power s0 \<and> zeroISenseVADC s1 = zeroISenseVADC s0"
    using s1 by (cases dI) (auto dest!: senseCurrent_Inr)
  have v4: "vSenseADC s4 = vSenseADC s3 \<and> iSenseVADC s4 = iSenseVADC s3 \<and> zeroISenseVADC s4 = zeroISenseVADC s3 \<and>
      voltage s4 = voltage s3 \<and> current s4 = current s3 \<and> power s4 = power s3"
    using s4 by (cases dT) (auto dest!: senseTemperatures_Inr)
  have v3: "vSenseADC s3 = (if dV then c_div (accum_reads (in_volt i) 0 5 (vSenseADC s0)) 5 else vSenseADC s0) \<and>
      power s3 = (if dP then voltage s3 * current s3 else power s0) \<and> zeroISenseVADC s3 = zeroISenseVADC s0"
    using v1 by (simp add: s3 senseVoltage_def sensePower_def Let_def)
  have st: "checkProtections cfg (sense_st c') (prot_st c) = checkProtections cfg s4 (prot_st c)"
    using c' by (simp add: trackMPPT_def Let_def checkProtections_def prot_rule_defs)
  show ?thesis
    using c' v3 v4 V P st by (simp add: s0_def trackMPPT_def Let_def)
qed
text \<open>
  C16. Liveness and sampling rate of the loop: from a well-formed state with at most two
  probes configured and the 1 ms current task, a run of ticks at consecutive
  milliseconds never stops with an error, and \<open>senseCurrent\<close> runs on every tick:
  \<open>sumCounter\<close> advances by the number of ticks (modulo \<open>2^16\<close>).
\<close>

theorem ctrl_run_samples_current:
  assumes "loop_ok c" and "\<forall>k<length ins. in_now (ins ! k) = last_run (tI c) + Suc k"
  shows "\<exists>c'. ctrl_run cfg ins c = Inr c' \<and>
           sumCounter (sense_st c') = sumCounter (sense_st c) + of_nat (length ins)"
  using assms
proof (induction ins arbitrary: c)
  case Nil
  then show ?case by simp
next
  case (Cons i ins)
  have "in_now i = last_run (tI c) + 1" using Cons.prems(2) by (metis length_Cons nth_Cons_0 zero_less_Suc One_nat_def)
  then have "last_run (tI c) < in_now i" by simp
  from ctrl_tick_current [OF Cons.prems(1) this, of cfg] obtain c1 where
    t: "ctrl_tick cfg i c = Inr c1" and ok1: "loop_ok c1"
    and n1: "sumCounter (sense_st c1) = sumCounter (sense_st c) + 1"
    and l1: "last_run (tI c1) = in_now i"
    by blast
  have "\<forall>k<length ins. in_now (ins ! k) = last_run (tI c1) + Suc k"
  proof (intro allI impI)
    fix k assume "k < length ins"
    then have "in_now ((i # ins) ! Suc k) = last_run (tI c) + Suc (Suc k)" using Cons.prems(2) by auto
    then show "in_now (ins ! k) = last_run (tI c1) + Suc k"
      using l1 \<open>in_now i = last_run (tI c) + 1\<close> by simp
  qed
  from Cons.IH [OF ok1 this] obtain c' where
    "ctrl_run cfg ins c1 = Inr c'" "sumCounter (sense_st c') = sumCounter (sense_st c1) + of_nat (length ins)"
    by blast
  with t n1 show ?case by (simp add: ac_simps)
qed

theorem ctrl_run_samples_current_witness:
  "loop_ok (ctrl_init (0::int)) \<and>
   (\<exists>c'. ctrl_run default_config
           [\<lparr>in_now = 1, in_current = 500, in_volt = \<lambda>_. 740, in_temp = \<lambda>_. 20\<rparr>,
            \<lparr>in_now = 2, in_current = 510, in_volt = \<lambda>_. 740, in_temp = \<lambda>_. 20\<rparr>] (ctrl_init (0::int)) = Inr c' \<and>
         sumCounter (sense_st c') = 2)"
proof -
  have h: "loop_ok (ctrl_init (0::int))"
    by (simp add: loop_ok_def ctrl_init_def sense_init_def avgCount_def new_task_def ra_new_inv)
  have l: "last_run (tI (ctrl_init (0::int))) = 0" by (simp add: ctrl_init_def new_task_def)
  have "\<forall>k<length [\<lparr>in_now = 1, in_current = 500, in_volt = \<lambda>_. 740, in_temp = \<lambda>_. 20\<rparr>,
            \<lparr>in_now = 2, in_current = 510, in_volt = \<lambda>_. (740::int), in_temp = \<lambda>_. 20\<rparr>].
         in_now ([\<lparr>in_now = 1, in_current = 500, in_volt = \<lambda>_. 740, in_temp = \<lambda>_. 20\<rparr>,
            \<lparr>in_now = 2, in_current = 510, in_volt = \<lambda>_. 740, in_temp = \<lambda>_. 20\<rparr>] ! k)
           = last_run (tI (ctrl_init (0::int))) + Suc k"
    by (simp add: l less_Suc_eq nth_Cons')
  from ctrl_run_samples_current [OF h this, of default_config] show ?thesis
    using h by (simp add: ctrl_init_def sense_init_def)
qed

lemma isDue_periodic:
  assumes p: "0 < period tk" and l: "last_run tk = period tk * (t div period tk)"
  shows "fst (isDue tk (Suc t)) = (Suc t mod period tk = 0) \<and>
         period (snd (isDue tk (Suc t))) = period tk \<and>
         last_run (snd (isDue tk (Suc t))) = period tk * (Suc t div period tk)"
proof -
  let ?p = "period tk"
  have t: "t = ?p * (t div ?p) + t mod ?p" by simp
  have m: "t mod ?p < ?p" using p by simp
  have e: "Suc t - last_run tk = Suc (t mod ?p)" using l t by linarith
  show ?thesis
  proof (cases "Suc (t mod ?p) = ?p")
    case True
    then have "Suc t div ?p = Suc (t div ?p)" "Suc t mod ?p = 0" by (simp_all add: div_Suc mod_Suc)
    moreover have "?p * Suc (t div ?p) = ?p * (t div ?p) + ?p" by simp
    then have "?p * Suc (t div ?p) = Suc t" using t True by linarith
    ultimately show ?thesis using True e by (simp add: isDue_def)
  next
    case False
    then have "Suc t div ?p = t div ?p" "Suc t mod ?p \<noteq> 0" by (simp_all add: div_Suc mod_Suc)
    with False e m l show ?thesis by (simp add: isDue_def)
  qed
qed

lemma sched_ok_step: "sched_ok t c \<Longrightarrow> sched_ok (Suc t)
   (c\<lparr>tI := (tI c)\<lparr>last_run := Suc t\<rparr>, tV := snd (isDue (tV c) (Suc t)),
      tP := snd (isDue (tP c) (Suc t)), tT := snd (isDue (tT c) (Suc t))\<rparr>)"
  using isDue_periodic [of "tV c" t] isDue_periodic [of "tP c" t] isDue_periodic [of "tT c" t]
  by (simp add: sched_ok_def)

lemma ctrl_run_sched_rule:
  assumes "loop_ok c" "sched_ok t c" "P t c" "\<forall>k<length ins. in_now (ins ! k) = t + Suc k \<and> Q (ins ! k)"
    and step: "\<And>t c i c'. loop_ok c \<Longrightarrow> sched_ok t c \<Longrightarrow> P t c \<Longrightarrow> Q i \<Longrightarrow>
           in_now i = Suc t \<Longrightarrow> ctrl_tick cfg i c = Inr c' \<Longrightarrow> P (Suc t) c'"
  shows "\<exists>c'. ctrl_run cfg ins c = Inr c' \<and> loop_ok c' \<and> sched_ok (t + length ins) c' \<and>
           P (t + length ins) c' \<and> sumCounter (sense_st c') = sumCounter (sense_st c) + of_nat (length ins)"
  using assms(1-4)
proof (induction ins arbitrary: c t)
  case Nil
  then show ?case by simp
next
  case (Cons i ins)
  have now: "in_now i = Suc t" and q: "Q i" using Cons.prems(4) [rule_format, of 0] by simp_all
  have "last_run (tI c) < in_now i" using Cons.prems(2) now by (simp add: sched_ok_def)
  from ctrl_tick_current [OF Cons.prems(1) this, of cfg] obtain c1 where
    tk: "ctrl_tick cfg i c = Inr c1" and ok1: "loop_ok c1"
    and n1: "sumCounter (sense_st c1) = sumCounter (sense_st c) + 1"
    and tasks: "last_run (tI c1) = in_now i" "tV c1 = snd (isDue (tV c) (in_now i))"
      "tP c1 = snd (isDue (tP c) (in_now i))" "tT c1 = snd (isDue (tT c) (in_now i))"
    by blast
  have s1: "sched_ok (Suc t) c1"
    using sched_ok_step [OF Cons.prems(2)] tasks now by (simp add: sched_ok_def)
  have p1: "P (Suc t) c1" by (rule step [OF Cons.prems(1,2,3) q now tk])
  have "\<forall>k<length ins. in_now (ins ! k) = Suc t + Suc k \<and> Q (ins ! k)"
  proof (intro allI impI)
    fix k assume "k < length ins"
    then show "in_now (ins ! k) = Suc t + Suc k \<and> Q (ins ! k)"
      using Cons.prems(4) [rule_format, of "Suc k"] by simp
  qed
  from Cons.IH [OF ok1 s1 p1 this] obtain c' where
    r: "ctrl_run cfg ins c1 = Inr c'" and o: "loop_ok c'" and sc: "sched_ok (Suc t + length ins) c'"
    and pc: "P (Suc t + length ins) c'"
    and cnt: "sumCounter (sense_st c') = sumCounter (sense_st c1) + of_nat (length ins)"
    by auto
  have "ctrl_run cfg (i # ins) c = Inr c'" using tk r by simp
  moreover have "sumCounter (sense_st c') = sumCounter (sense_st c) + of_nat (length (i # ins))"
    using cnt n1 by (simp add: ac_simps)
  ultimately show ?case using o sc pc by auto
qed


lemma ctrl_run_sched:
  assumes "loop_ok c" "sched_ok t c" "\<forall>k<length ins. in_now (ins ! k) = t + Suc k"
  shows "\<exists>c'. ctrl_run cfg ins c = Inr c' \<and> loop_ok c' \<and> sched_ok (t + length ins) c' \<and>
           sumCounter (sense_st c') = sumCounter (sense_st c) + of_nat (length ins)"
  using ctrl_run_sched_rule [where P = "\<lambda>_ _. True" and Q = "\<lambda>_. True", of c t ins cfg] assms by simp

lemma ctrl_init_ok: "loop_ok (ctrl_init d) \<and> sched_ok 0 (ctrl_init d)"
  by (simp add: loop_ok_def sched_ok_def ctrl_init_def sense_init_def avgCount_def new_task_def ra_new_inv)

lemma checkProtections_duty_step:
  "duty p - 2 \<le> duty (checkProtections cfg s (p :: int prot_state)) \<and>
   duty (checkProtections cfg s p) \<le> duty p + 3"
  by (simp add: checkProtections_def prot_rule_defs Let_def)

text \<open>
  C20. Schedule of the loop: from start-up, ticks at the milliseconds \<open>1, \<dots>, n\<close>
  all complete; the current is sampled on every tick, and the voltage, power and
  temperature tasks last ran at the latest multiple of 10, 100 and 1000 ms, i.e. they
  ran on every tenth, hundredth and thousandth tick.
\<close>

theorem ctrl_run_schedule:
  assumes "\<forall>k<length ins. in_now (ins ! k) = Suc k"
  shows "\<exists>c'. ctrl_run cfg ins (ctrl_init d) = Inr c' \<and>
           sumCounter (sense_st c') = of_nat (length ins) \<and>
           last_run (tV c') = 10 * (length ins div 10) \<and>
           last_run (tP c') = 100 * (length ins div 100) \<and>
           last_run (tT c') = 1000 * (length ins div 1000)"
proof -
  have "\<forall>k<length ins. in_now (ins ! k) = 0 + Suc k" using assms by simp
  from ctrl_run_sched [OF conjunct1 [OF ctrl_init_ok] conjunct2 [OF ctrl_init_ok] this, of cfg]
  obtain c' where "ctrl_run cfg ins (ctrl_init d) = Inr c'" "sched_ok (length ins) c'"
    "sumCounter (sense_st c') = sumCounter (sense_st (ctrl_init d)) + of_nat (length ins)"
    by auto
  then show ?thesis by (auto simp: sched_ok_def ctrl_init_def sense_init_def)
qed

theorem ctrl_run_schedule_witness:
  "\<exists>c'. ctrl_run default_config
          (map (\<lambda>k. \<lparr>in_now = Suc k, in_current = 500, in_volt = \<lambda>_. 740, in_temp = \<lambda>_. 20\<rparr>) [0..<12])
          (ctrl_init (0::int)) = Inr c' \<and> last_run (tV c') = 10 \<and> last_run (tP c') = 0"
proof -
  have "\<forall>k<length (map (\<lambda>k. \<lparr>in_now = Suc k, in_current = 500::int, in_volt = \<lambda>_. 740::int, in_temp = \<lambda>_. 20::real\<rparr>) [0..<12]).
          in_now (map (\<lambda>k. \<lparr>in_now = Suc k, in_current = 500::int, in_volt = \<lambda>_. 740::int, in_temp = \<lambda>_. 20::real\<rparr>) [0..<12] ! k) = Suc k"
    by simp
  from ctrl_run_schedule [OF this, of default_config "0::int"] show ?thesis by auto
qed

text \<open>
  C21. Range of the duty over a run of the loop (\<open>int\<close> duty): each tick moves it by at
  most \<open>+3\<close> (minimum-duty and overvoltage together) and at least \<open>-2\<close> (overcurrent),
  so after \<open>n\<close> ticks it lies in \<open>[d - 2 n, d + 3 n]\<close>.
\<close>

theorem ctrl_run_duty_range:
  assumes "ctrl_run cfg ins c = Inr c'"
  shows "duty (prot_st c) - 2 * int (length ins) \<le> duty (prot_st (c' :: int ctrl)) \<and>
         duty (prot_st c') \<le> duty (prot_st c) + 3 * int (length ins)"
  using assms
proof (induction ins arbitrary: c)
  case Nil
  then show ?case by simp
next
  case (Cons i ins)
  from Cons.prems obtain c1 where t: "ctrl_tick cfg i c = Inr c1" and r: "ctrl_run cfg ins c1 = Inr c'"
    by (auto split: sum.splits)
  from t obtain dI dV dP dT s1 s4 where "prot_st c1 = checkProtections cfg s4 (prot_st c)"
    by (rule ctrl_tick_cases)
  then have "duty (prot_st c) - 2 \<le> duty (prot_st c1) \<and> duty (prot_st c1) \<le> duty (prot_st c) + 3"
    using checkProtections_duty_step by simp
  with Cons.IH [OF r] show ?case by simp
qed

theorem ctrl_run_duty_range_witness:
  "\<exists>c'. ctrl_run default_config
          (map (\<lambda>k. \<lparr>in_now = Suc k, in_current = 500, in_volt = \<lambda>_. 740, in_temp = \<lambda>_. 20\<rparr>) [0..<3])
          (ctrl_init (0::int)) = Inr c' \<and> -6 \<le> duty (prot_st c') \<and> duty (prot_st c') \<le> 9"
proof -
  have "\<forall>k<length (map (\<lambda>k. \<lparr>in_now = Suc k, in_current = 500::int, in_volt = \<lambda>_. 740::int, in_temp = \<lambda>_. 20::real\<rparr>) [0..<3]).
          in_now (map (\<lambda>k. \<lparr>in_now = Suc k, in_current = 500::int, in_volt = \<lambda>_. 740::int, in_temp = \<lambda>_. 20::real\<rparr>) [0..<3] ! k) = Suc k"
    by simp
  then have "\<forall>k<length (map (\<lambda>k. \<lparr>in_now = Suc k, in_current = 500::int, in_volt = \<lambda>_. 740::int, in_temp = \<lambda>_. 20::real\<rparr>) [0..<3]).
          in_now (map (\<lambda>k. \<lparr>in_now = Suc k, in_current = 500::int, in_volt = \<lambda>_. 740::int, in_temp = \<lambda>_. 20::real\<rparr>) [0..<3] ! k) = 0 + Suc k"
    by simp
  from ctrl_run_sched [OF conjunct1 [OF ctrl_init_ok] conjunct2 [OF ctrl_init_ok] this, of default_config]
  obtain c' where r: "ctrl_run default_config
          (map (\<lambda>k. \<lparr>in_now = Suc k, in_current = 500, in_volt = \<lambda>_. 740, in_temp = \<lambda>_. 20\<rparr>) [0..<3])
          (ctrl_init (0::int)) = Inr c'"
    by blast
  from ctrl_run_duty_range [OF r] r show ?thesis by (simp add: ctrl_init_def prot_init_def)
qed

end
