(* ===== verification/LoopVoltage.thy ===== *)
theory LoopVoltage
  imports ControlLoop
begin

text \<open>
  The voltage channel along runs of the control loop: \<open>senseVoltage\<close> of
  \<open>src/Motor Controller Firmware/src/modules/sense.cpp\<close> runs on the 10 ms task of
  \<open>ControlLoop.ctrl_tick\<close>, and the overvoltage rule of \<open>protections.cpp\<close> reads its
  result in the same tick. \<open>volt_track cfg r t c\<close> is the state of the channel after
  ticks at every millisecond up to \<open>t\<close> with the battery held at the reading \<open>r\<close>:
  the distance \<open>5 r - 4 vSenseADC\<close> is bounded by the \<open>t div 10\<close>-th iterate of
  \<open>Sense.volt_dist_bound\<close> from its start-up value, and the overvoltage flag agrees with
  the reading. It is carried along a run by \<open>ControlLoop.ctrl_run_sched_rule\<close>.
\<close>

definition volt_track :: "prot_config \<Rightarrow> adc \<Rightarrow> nat \<Rightarrow> 'd ctrl \<Rightarrow> bool" where
  "volt_track cfg r t c \<longleftrightarrow>
     0 \<le> vSenseADC (sense_st c) \<and> 4 * vSenseADC (sense_st c) \<le> 5 * r \<and>
     5 * r - 4 * vSenseADC (sense_st c) \<le> (volt_dist_bound ^^ (t div 10)) 5115 \<and>
     ovpActive (prot_st c) = (OVERVOLTAGE_PREVENTION cfg \<and> 845 < vSenseADC (sense_st c))"

lemma volt_track_step:
  assumes sc: "sched_ok t c" and vt: "volt_track cfg r t c" and r: "0 \<le> r"
    and i: "in_now i = Suc t" "in_volt i = (\<lambda>_. r)" and tick: "ctrl_tick cfg i c = Inr c'"
  shows "volt_track cfg r (Suc t) (c' :: ('d::ring_1) ctrl)"
proof -
  let ?b = "(volt_dist_bound ^^ (t div 10)) 5115"
  let ?s = "sense_st c"
  have due: "fst (isDue (tV c) (Suc t)) = (Suc t mod 10 = 0)"
    using isDue_periodic [of "tV c" t] sc by (simp add: sched_ok_def)
  have fr: "vSenseADC (sense_st c') =
      (if Suc t mod 10 = 0 then vSenseADC (senseVoltage ?s (\<lambda>_. r)) else vSenseADC ?s)"
    "prot_st c' = checkProtections cfg (sense_st c') (prot_st c)"
    using ctrl_tick_sense [OF tick] due i by (simp_all add: senseVoltage_def Let_def)
  have vt': "0 \<le> vSenseADC ?s" "4 * vSenseADC ?s \<le> 5 * r" "5 * r - 4 * vSenseADC ?s \<le> ?b"
    using vt by (simp_all add: volt_track_def)
  have "0 \<le> vSenseADC (sense_st c') \<and> 4 * vSenseADC (sense_st c') \<le> 5 * r \<and>
        5 * r - 4 * vSenseADC (sense_st c') \<le> (volt_dist_bound ^^ (Suc t div 10)) 5115"
  proof (cases "Suc t mod 10 = 0")
    case True
    then have "Suc t div 10 = Suc (t div 10)" by (simp add: div_Suc mod_Suc split: if_splits)
    with True fr(1) senseVoltage_dist [OF vt'(1) r vt'(2,3)] show ?thesis by simp
  next
    case False
    then have "Suc t div 10 = t div 10" by (simp add: div_Suc mod_Suc split: if_splits)
    with False fr(1) vt' show ?thesis by simp
  qed
  moreover have "ovpActive (prot_st c') =
      (OVERVOLTAGE_PREVENTION cfg \<and> 845 < vSenseADC (sense_st c'))"
    using fr(2) vt by (simp add: checkProtections_def prot_rule_defs Let_def volt_track_def)
  ultimately show ?thesis by (simp add: volt_track_def)
qed

lemma ctrl_run_volt:
  assumes "0 \<le> r" "r \<le> 1023"
    and "\<forall>k<length ins. in_now (ins ! k) = Suc k \<and> in_volt (ins ! k) = (\<lambda>_. r)"
  shows "\<exists>c'. ctrl_run cfg ins (ctrl_init d) = Inr c' \<and> volt_track cfg r (length ins) (c' :: ('d::ring_1) ctrl)"
proof -
  have v0: "volt_track cfg r 0 (ctrl_init d)"
    using assms(1,2) by (simp add: volt_track_def ctrl_init_def sense_init_def prot_init_def)
  have ins: "\<forall>k<length ins. in_now (ins ! k) = 0 + Suc k \<and> in_volt (ins ! k) = (\<lambda>_. r)"
    using assms(3) by simp
  have "\<exists>c'. ctrl_run cfg ins (ctrl_init d) = Inr c' \<and> loop_ok c' \<and> sched_ok (0 + length ins) c' \<and>
          volt_track cfg r (0 + length ins) c' \<and>
          sumCounter (sense_st c') = sumCounter (sense_st (ctrl_init d)) + of_nat (length ins)"
    by (rule ctrl_run_sched_rule [where P = "volt_track cfg r" and Q = "\<lambda>i. in_volt i = (\<lambda>_. r)",
          OF conjunct1 [OF ctrl_init_ok [of d]] conjunct2 [OF ctrl_init_ok [of d]] v0 ins])
       (rule volt_track_step [OF _ _ assms(1)])
  then show ?thesis by auto
qed

lemma volt_dist_bound_settled: "6 \<le> k \<Longrightarrow> (volt_dist_bound ^^ k) 5115 = 4"
proof (induction k rule: dec_induct)
  case base
  show ?case by (simp add: volt_dist_bound_def numeral_eq_Suc)
next
  case (step k)
  then show ?case by (simp add: volt_dist_bound_def)
qed

text \<open>
  C22. Composition of the voltage filter with the 10 ms schedule: from start-up, after
  60 or more ticks at consecutive milliseconds with the battery held at a 10-bit reading
  \<open>r\<close>, the loop's \<open>vSenseADC\<close> has reached the band \<open>4 v \<le> 5 r < 4 v + 5\<close>, i.e. the
  reading the protection rule sees is about \<open>5 r / 4\<close>, not \<open>r\<close>.
\<close>

theorem ctrl_run_voltage_settles:
  assumes "adc_ok r" "60 \<le> length ins"
    and "\<forall>k<length ins. in_now (ins ! k) = Suc k \<and> in_volt (ins ! k) = (\<lambda>_. r)"
  shows "\<exists>c'. ctrl_run cfg ins (ctrl_init d) = Inr c' \<and>
           4 * vSenseADC (sense_st (c' :: ('d::ring_1) ctrl)) \<le> 5 * r \<and>
           5 * r < 4 * vSenseADC (sense_st c') + 5"
proof -
  from ctrl_run_volt [of r ins cfg d] assms obtain c' where
    "ctrl_run cfg ins (ctrl_init d) = Inr c'" "volt_track cfg r (length ins) (c' :: 'd ctrl)"
    by (auto simp: adc_ok_def)
  moreover have "(volt_dist_bound ^^ (length ins div 10)) 5115 = 4"
    using assms(2) by (intro volt_dist_bound_settled) simp
  ultimately show ?thesis by (auto simp: volt_track_def)
qed

theorem ctrl_run_voltage_settles_witness:
  "\<exists>c'. ctrl_run default_config
          (map (\<lambda>k. \<lparr>in_now = Suc k, in_current = 500, in_volt = \<lambda>_. 740, in_temp = \<lambda>_. 20\<rparr>) [0..<60])
          (ctrl_init (0::int)) = Inr c' \<and> 924 \<le> vSenseADC (sense_st c') \<and> vSenseADC (sense_st c') \<le> 925"
proof -
  have h: "adc_ok 740"
    "60 \<le> length (map (\<lambda>k. \<lparr>in_now = Suc k, in_current = 500::int, in_volt = \<lambda>_. 740::int, in_temp = \<lambda>_. 20::real\<rparr>) [0..<60])"
    "\<forall>k<length (map (\<lambda>k. \<lparr>in_now = Suc k, in_current = 500::int, in_volt = \<lambda>_. 740::int, in_temp = \<lambda>_. 20::real\<rparr>) [0..<60]).
       in_now (map (\<lambda>k. \<lparr>in_now = Suc k, in_current = 500::int, in_volt = \<lambda>_. 740::int, in_temp = \<lambda>_. 20::real\<rparr>) [0..<60] ! k) = Suc k \<and>
       in_volt (map (\<lambda>k. \<lparr>in_now = Suc k, in_current = 500::int, in_volt = \<lambda>_. 740::int, in_temp = \<lambda>_. 20::real\<rparr>) [0..<60] ! k) = (\<lambda>_. 740)"
    by (simp_all add: adc_ok_def)
  from ctrl_run_voltage_settles [OF h, of default_config "0::int"] obtain c' where
    "ctrl_run default_config
          (map (\<lambda>k. \<lparr>in_now = Suc k, in_current = 500, in_volt = \<lambda>_. 740, in_temp = \<lambda>_. 20\<rparr>) [0..<60])
          (ctrl_init (0::int)) = Inr c'" "4 * vSenseADC (sense_st c') \<le> 5 * 740" "5 * 740 < 4 * vSenseADC (sense_st c') + 5"
    by blast
  then show ?thesis by auto
qed

text \<open>
  C23. End to end false overvoltage trip along the loop: with the overvoltage rule enabled,
  for every true battery reading \<open>r\<close> from 677 to 845, i.e. at or below the
  845 threshold of \<open>checkProtections\<close>, every run of 60 or more ticks from start-up
  ends with \<open>vSenseADC\<close> above 845 and the overvoltage flag raised.
\<close>

theorem ctrl_run_false_ovp:
  assumes "OVERVOLTAGE_PREVENTION cfg" "677 \<le> r" "r \<le> 845" "60 \<le> length ins"
    and "\<forall>k<length ins. in_now (ins ! k) = Suc k \<and> in_volt (ins ! k) = (\<lambda>_. r)"
  shows "\<exists>c'. ctrl_run cfg ins (ctrl_init d) = Inr c' \<and>
           845 < vSenseADC (sense_st (c' :: ('d::ring_1) ctrl)) \<and> ovpActive (prot_st c')"
proof -
  from ctrl_run_volt [of r ins cfg d] assms obtain c' where
    run: "ctrl_run cfg ins (ctrl_init d) = Inr c'" and vt: "volt_track cfg r (length ins) (c' :: 'd ctrl)"
    by auto
  have "(volt_dist_bound ^^ (length ins div 10)) 5115 = 4"
    using assms(4) by (intro volt_dist_bound_settled) simp
  with vt assms(2) have "845 < vSenseADC (sense_st c')" by (simp add: volt_track_def)
  with vt assms(1) run show ?thesis by (simp add: volt_track_def)
qed

theorem ctrl_run_false_ovp_witness:
  "\<exists>c'. ctrl_run default_config
          (map (\<lambda>k. \<lparr>in_now = Suc k, in_current = 300, in_volt = \<lambda>_. 700, in_temp = \<lambda>_. 25\<rparr>) [0..<64])
          (ctrl_init (0::int)) = Inr c' \<and> ovpActive (prot_st c')"
proof -
  have h: "OVERVOLTAGE_PREVENTION default_config" "677 \<le> (700::int)" "(700::int) \<le> 845"
    "60 \<le> length (map (\<lambda>k. \<lparr>in_now = Suc k, in_current = 300::int, in_volt = \<lambda>_. 700::int, in_temp = \<lambda>_. 25::real\<rparr>) [0..<64])"
    "\<forall>k<length (map (\<lambda>k. \<lparr>in_now = Suc k, in_current = 300::int, in_volt = \<lambda>_. 700::int, in_temp = \<lambda>_. 25::real\<rparr>) [0..<64]).
       in_now (map (\<lambda>k. \<lparr>in_now = Suc k, in_current = 300::int, in_volt = \<lambda>_. 700::int, in_temp = \<lambda>_. 25::real\<rparr>) [0..<64] ! k) = Suc k \<and>
       in_volt (map (\<lambda>k. \<lparr>in_now = Suc k, in_current = 300::int, in_volt = \<lambda>_. 700::int, in_temp = \<lambda>_. 25::real\<rparr>) [0..<64] ! k) = (\<lambda>_. 700)"
    by (simp_all add: default_config_def)
  from ctrl_run_false_ovp [OF h, of "0::int"] show ?thesis by blast
qed

end
