(* ===== verification/LoopSafety.thy ===== *)
theory LoopSafety
  imports ControlLoop
begin

text \<open>
  Ordering and calibration along the control loop. \<open>ctrl_tick\<close> runs the sensing tasks
  in the order current, voltage, power, temperature, so a tick on which the 100 ms power
  task is due multiplies readings refreshed in the same tick (spec section 4.1:
  \<open>readPower\<close> runs after both readings are refreshed). The start-up code is not in the
  repository; \<open>ctrl_setup\<close> models it from spec section 4.1 as one call of
  \<open>senseZeroCurrent\<close> (\<open>sense.cpp\<close>) on the zero-initialised globals before the
  loop starts.
\<close>

definition ctrl_setup :: "'d \<Rightarrow> reads \<Rightarrow> 'd ctrl" where
  \<comment> \<open>start-up: the calibration \<open>zeroCurrent()\<close> once, before any tick\<close>
  "ctrl_setup d rd = (ctrl_init d)\<lparr>sense_st := senseZeroCurrent sense_init rd\<rparr>"

text \<open>
  C27. Ordering within a tick: after ticks at every millisecond up to \<open>t\<close>, the tick at
  \<open>t + 1\<close> sets \<open>power\<close> to the product of the voltage and current it has just left in
  the globals when \<open>t + 1\<close> is a multiple of 100, and leaves it unchanged otherwise; on
  every multiple of 10 (so on every power tick) the voltage reading was refreshed in the
  same tick from the new samples.
\<close>

theorem ctrl_tick_power_fresh:
  assumes "sched_ok t c" "in_now i = Suc t" "ctrl_tick cfg i c = Inr c'"
  shows "power (sense_st c') =
           (if Suc t mod 100 = 0 then voltage (sense_st c') * current (sense_st c') else power (sense_st c)) \<and>
         vSenseADC (sense_st c') =
           (if Suc t mod 10 = 0 then c_div (accum_reads (in_volt i) 0 5 (vSenseADC (sense_st c))) 5
            else vSenseADC (sense_st c))"
proof -
  have "fst (isDue (tP c) (Suc t)) = (Suc t mod 100 = 0)" "fst (isDue (tV c) (Suc t)) = (Suc t mod 10 = 0)"
    using isDue_periodic [of "tP c" t] isDue_periodic [of "tV c" t] assms(1) by (simp_all add: sched_ok_def)
  with ctrl_tick_sense [OF assms(3)] assms(2) show ?thesis by simp
qed

theorem ctrl_tick_power_fresh_witness:
  "\<exists>c c'. ctrl_run default_config
             (map (\<lambda>k. \<lparr>in_now = Suc k, in_current = 500, in_volt = \<lambda>_. 740, in_temp = \<lambda>_. 20\<rparr>) [0..<99])
             (ctrl_init (0::int)) = Inr c \<and>
          ctrl_tick default_config \<lparr>in_now = 100, in_current = 500, in_volt = \<lambda>_. 740, in_temp = \<lambda>_. 20\<rparr> c = Inr c' \<and>
          power (sense_st c') = voltage (sense_st c') * current (sense_st c')"
proof -
  have "\<forall>k<length (map (\<lambda>k. \<lparr>in_now = Suc k, in_current = 500::int, in_volt = \<lambda>_. 740::int, in_temp = \<lambda>_. 20::real\<rparr>) [0..<99]).
          in_now (map (\<lambda>k. \<lparr>in_now = Suc k, in_current = 500::int, in_volt = \<lambda>_. 740::int, in_temp = \<lambda>_. 20::real\<rparr>) [0..<99] ! k) = 0 + Suc k"
    by simp
  from ctrl_run_sched [OF conjunct1 [OF ctrl_init_ok [of "0::int"]] conjunct2 [OF ctrl_init_ok [of "0::int"]] this,
      of default_config]
  obtain c where run: "ctrl_run default_config
             (map (\<lambda>k. \<lparr>in_now = Suc k, in_current = 500, in_volt = \<lambda>_. 740, in_temp = \<lambda>_. 20\<rparr>) [0..<99])
             (ctrl_init (0::int)) = Inr c" and ok: "loop_ok c" and sc: "sched_ok 99 c"
    by auto
  have "last_run (tI c) < in_now \<lparr>in_now = 100, in_current = 500, in_volt = \<lambda>_. 740, in_temp = \<lambda>_. 20\<rparr>"
    using sc by (simp add: sched_ok_def)
  from ctrl_tick_current [OF ok this, of default_config] obtain c' where
    tick: "ctrl_tick default_config \<lparr>in_now = 100, in_current = 500, in_volt = \<lambda>_. 740, in_temp = \<lambda>_. 20\<rparr> c = Inr c'"
    by blast
  from ctrl_tick_power_fresh [OF sc _ tick] have "power (sense_st c') = voltage (sense_st c') * current (sense_st c')"
    by simp
  with run tick show ?thesis by blast
qed

lemma ctrl_run_offset:
  assumes "ctrl_run cfg ins c = Inr c'" "MINIMUM_DUTY_DETECTION cfg"
  shows "zeroISenseVADC (sense_st c') = zeroISenseVADC (sense_st c) \<and>
         (ins \<noteq> [] \<longrightarrow> mddActive (prot_st c') = (iSenseVADC (sense_st c') < zeroISenseVADC (sense_st c')))"
  using assms(1)
proof (induction ins arbitrary: c)
  case Nil
  then show ?case by simp
next
  case (Cons i ins)
  from Cons.prems obtain c1 where tick: "ctrl_tick cfg i c = Inr c1" and run: "ctrl_run cfg ins c1 = Inr c'"
    by (auto split: sum.splits)
  have t1: "zeroISenseVADC (sense_st c1) = zeroISenseVADC (sense_st c) \<and>
      mddActive (prot_st c1) = (iSenseVADC (sense_st c1) < zeroISenseVADC (sense_st c1))"
    using ctrl_tick_sense [OF tick] assms(2) by (simp add: checkProtections_def prot_rule_defs Let_def)
  show ?case
  proof (cases "ins = []")
    case True
    with run t1 show ?thesis by simp
  next
    case False
    with Cons.IH [OF run] t1 show ?thesis by simp
  qed
qed

lemma ctrl_setup_ok: "loop_ok (ctrl_setup d rd) \<and> sched_ok 0 (ctrl_setup d rd)"
  using ctrl_init_ok [of d] by (simp add: ctrl_setup_def loop_ok_def sched_ok_def senseZeroCurrent_def)
     (simp add: ctrl_init_def sense_init_def)

text \<open>
  C28. The calibration offset is fixed for the life of the loop: after the start-up
  calibration of spec section 4.1, every run of the loop keeps \<open>zeroISenseVADC\<close> at the
  truncated mean of the five start-up readings (no tick re-zeroes it), and after each
  tick the minimum-duty flag tells exactly whether the filtered reading of that tick lies
  strictly below this offset.
\<close>

theorem ctrl_run_calibrated:
  assumes "ctrl_run cfg ins (ctrl_setup d rd) = Inr c'" "ins \<noteq> []" "MINIMUM_DUTY_DETECTION cfg"
  shows "zeroISenseVADC (sense_st c') = c_div (accum_reads rd 0 5 0) 5 \<and>
         mddActive (prot_st c') = (iSenseVADC (sense_st c') < c_div (accum_reads rd 0 5 0) 5)"
  using ctrl_run_offset [OF assms(1,3)] assms(2)
  by (simp add: ctrl_setup_def senseZeroCurrent_def sense_init_def)

theorem ctrl_run_calibrated_witness:
  "\<exists>c'. ctrl_run default_config
          [\<lparr>in_now = 1, in_current = 500, in_volt = \<lambda>_. 740, in_temp = \<lambda>_. 20\<rparr>]
          (ctrl_setup (0::int) (\<lambda>_. 512)) = Inr c' \<and>
        zeroISenseVADC (sense_st c') = 512 \<and> mddActive (prot_st c') = (iSenseVADC (sense_st c') < 512)"
proof -
  have "\<forall>k<length [\<lparr>in_now = 1, in_current = 500::int, in_volt = \<lambda>_. 740::int, in_temp = \<lambda>_. 20::real\<rparr>].
          in_now ([\<lparr>in_now = 1, in_current = 500::int, in_volt = \<lambda>_. 740::int, in_temp = \<lambda>_. 20::real\<rparr>] ! k) = 0 + Suc k"
    by simp
  from ctrl_run_sched [OF conjunct1 [OF ctrl_setup_ok] conjunct2 [OF ctrl_setup_ok] this, of default_config]
  obtain c' where run: "ctrl_run default_config
          [\<lparr>in_now = 1, in_current = 500, in_volt = \<lambda>_. 740, in_temp = \<lambda>_. 20\<rparr>]
          (ctrl_setup (0::int) (\<lambda>_. 512)) = Inr c'"
    by blast
  have h: "[\<lparr>in_now = 1, in_current = 500::int, in_volt = \<lambda>_. 740::int, in_temp = \<lambda>_. 20::real\<rparr>] \<noteq> []"
    "MINIMUM_DUTY_DETECTION default_config" by (simp_all add: default_config_def)
  from ctrl_run_calibrated [OF run h] run show ?thesis by (simp add: model_simps)
qed

end
