(* ===== verification/VoltageFilter.thy ===== *)
theory VoltageFilter
  imports Sense "HOL-Library.While_Combinator"
begin

text \<open>
  The dynamics of \<open>senseVoltage\<close> (\<open>src/Motor Controller Firmware/src/modules/sense.cpp\<close>)
  under repeated calls. Because the function adds five new samples to the previous
  value of \<open>vSenseADC\<close> and divides by five, it is an integer recurrence
  \<open>v' = (v + 5 r) div 5\<close> rather than an average. \<open>volt_settle\<close> runs it, with the battery
  held at the reading \<open>r\<close>, as a loop that stops when a call no longer changes the
  reading (a \<open>while_option\<close>: \<open>None\<close> would mean it never settles). The termination
  proof uses the measure \<open>volt_measure\<close>: the distance \<open>5 r - 4 v\<close> below the fixed
  point, and \<open>4 v - 5 r + 5\<close> above it (after a voltage drop), which every
  non-settling call decreases.
\<close>

definition volt_settle :: "adc \<Rightarrow> sense_state \<Rightarrow> sense_state option" where
  "volt_settle r =
     while_option (\<lambda>s. vSenseADC (senseVoltage s (\<lambda>_. r)) \<noteq> vSenseADC s) (\<lambda>s. senseVoltage s (\<lambda>_. r))"

definition volt_measure :: "adc \<Rightarrow> sense_state \<Rightarrow> nat" where
  "volt_measure r s =
     nat (if 4 * vSenseADC s \<le> 5 * r then 5 * r - 4 * vSenseADC s else 4 * vSenseADC s - 5 * r + 5)"

lemma senseVoltage_bounds:
  assumes "0 \<le> vSenseADC s" "0 \<le> r"
  shows "5 * vSenseADC (senseVoltage s (\<lambda>_. r)) \<le> vSenseADC s + 5 * r \<and>
         vSenseADC s + 5 * r < 5 * vSenseADC (senseVoltage s (\<lambda>_. r)) + 5"
  using div5_eq_iff [of "vSenseADC s + 5 * r" "vSenseADC (senseVoltage s (\<lambda>_. r))"]
    senseVoltage_const [OF assms] by simp

lemma volt_measure_decreases:
  assumes "0 \<le> vSenseADC s" "0 \<le> r"
    and "vSenseADC (senseVoltage s (\<lambda>_. r)) \<noteq> vSenseADC s"
  shows "0 \<le> vSenseADC (senseVoltage s (\<lambda>_. r)) \<and>
         volt_measure r (senseVoltage s (\<lambda>_. r)) < volt_measure r s"
proof -
  define v where "v = vSenseADC s"
  define v' where "v' = vSenseADC (senseVoltage s (\<lambda>_. r))"
  have b: "5 * v' \<le> v + 5 * r" "v + 5 * r < 5 * v' + 5"
    using senseVoltage_bounds [OF assms(1,2)] by (simp_all add: v_def v'_def)
  have ne: "v' \<noteq> v" using assms(3) by (simp add: v_def v'_def)
  have v0: "0 \<le> v'" using b assms(1,2) v_def by linarith
  have lt: "(if 4 * v' \<le> 5 * r then 5 * r - 4 * v' else 4 * v' - 5 * r + 5)
               < (if 4 * v \<le> 5 * r then 5 * r - 4 * v else 4 * v - 5 * r + 5)"
  proof (cases "4 * v' \<le> 5 * r"; cases "4 * v \<le> 5 * r")
    assume "4 * v' \<le> 5 * r" "4 * v \<le> 5 * r"
    with b ne show ?thesis by simp
  next
    assume "4 * v' \<le> 5 * r" "\<not> 4 * v \<le> 5 * r"
    with b show ?thesis by simp
  next
    assume "\<not> 4 * v' \<le> 5 * r" "4 * v \<le> 5 * r"
    with b show ?thesis by simp
  next
    assume "\<not> 4 * v' \<le> 5 * r" "\<not> 4 * v \<le> 5 * r"
    with b ne show ?thesis by simp
  qed
  have ge: "0 \<le> (if 4 * v' \<le> 5 * r then 5 * r - 4 * v' else 4 * v' - 5 * r + 5)" by simp
  have "volt_measure r (senseVoltage s (\<lambda>_. r)) < volt_measure r s"
    unfolding volt_measure_def v_def [symmetric] v'_def [symmetric]
    using lt ge zless_nat_conj le_less_trans by metis
  with v0 show ?thesis by (simp add: v'_def)
qed

text \<open>
  C17. Termination of the settling loop: from any state with a non-negative reading and
  a constant battery reading \<open>r \<ge> 0\<close> (rising or falling voltage alike), repeated calls
  of \<open>senseVoltage\<close> reach a value the next call keeps, and that value satisfies
  \<open>4 v \<le> 5 r < 4 v + 5\<close>.
\<close>

theorem volt_settle_terminates:
  assumes "0 \<le> vSenseADC s" and "0 \<le> r"
  shows "\<exists>s'. volt_settle r s = Some s' \<and>
           4 * vSenseADC s' \<le> 5 * r \<and> 5 * r < 4 * vSenseADC s' + 5"
proof -
  have step: "0 \<le> vSenseADC (senseVoltage t (\<lambda>_. r)) \<and>
              volt_measure r (senseVoltage t (\<lambda>_. r)) < volt_measure r t"
    if "0 \<le> vSenseADC t" "vSenseADC (senseVoltage t (\<lambda>_. r)) \<noteq> vSenseADC t" for t
    using volt_measure_decreases [OF that(1) assms(2) that(2)] .
  have "\<exists>t. volt_settle r s = Some t"
    unfolding volt_settle_def
    by (rule measure_while_option_Some [where P = "\<lambda>s. 0 \<le> vSenseADC s" and f = "volt_measure r"])
       (use step assms(1) in auto)
  then obtain s' where s': "volt_settle r s = Some s'" by blast
  have stop: "vSenseADC (senseVoltage s' (\<lambda>_. r)) = vSenseADC s'"
    using while_option_stop [OF s' [unfolded volt_settle_def]] by simp
  have "0 \<le> vSenseADC s'"
    by (rule while_option_rule [where P = "\<lambda>s. 0 \<le> vSenseADC s", OF _ s' [unfolded volt_settle_def] assms(1)])
       (use step in auto)
  with stop s' assms(2) show ?thesis using senseVoltage_fix_iff [of s' r] by auto
qed

theorem volt_settle_terminates_witness:
  "0 \<le> vSenseADC (sense_init\<lparr>vSenseADC := 1200\<rparr>) \<and> (0::int) \<le> 600 \<and>
   (\<exists>s'. volt_settle 600 (sense_init\<lparr>vSenseADC := 1200\<rparr>) = Some s' \<and>
         749 \<le> vSenseADC s' \<and> vSenseADC s' \<le> 750)"
proof -
  have h: "0 \<le> vSenseADC (sense_init\<lparr>vSenseADC := 1200\<rparr>)" "(0::int) \<le> 600" by simp_all
  from volt_settle_terminates [OF h] obtain s' where
    "volt_settle 600 (sense_init\<lparr>vSenseADC := 1200\<rparr>) = Some s'"
    "4 * vSenseADC s' \<le> 5 * 600" "5 * 600 < 4 * vSenseADC s' + 5" by blast
  moreover have "749 \<le> vSenseADC s' \<and> vSenseADC s' \<le> 750" using calculation(2,3) by linarith
  ultimately show ?thesis using h by blast
qed

end
