(* ===== verification/TempBus.thy ===== *)
theory TempBus
  imports Sense
begin

text \<open>
  The temperature-probe collaborator of \<open>src/Motor Controller Firmware/src/modules/sense.cpp\<close>:
  the objects \<open>OneWire oneWire(ONE_WIRE_BUS)\<close> and \<open>DallasTemperature tempSensors(&oneWire)\<close>
  and the calls \<open>configureTempSensors\<close> and \<open>senseTemperatures\<close> make on them. The
  DallasTemperature library is not in the repository; it is modelled from its contract in
  spec section 6 (a device count, a conversion request, a read by index): the record
  \<open>dallas\<close> holds the probes on the bus in search order with the temperature each measures,
  the count found by the last \<open>begin()\<close> (a \<open>uint8_t\<close> in the library, so an
  \<open>8 word\<close>), and the temperatures latched by the last \<open>requestTemperatures()\<close>.
  A read of an index with no latched probe returns the library's
  \<open>DEVICE_DISCONNECTED_C\<close>. \<open>dt_set_bus\<close> is the environment attaching or removing
  probes between calls. \<open>configureTempSensors_bus\<close> and \<open>senseTemperatures_bus\<close> are
  the two functions of \<open>sense.cpp\<close> with their library calls, composed from
  \<open>Sense.configureTempSensors\<close> and \<open>Sense.senseTemperatures\<close>, which take the
  values the library returns as arguments.
\<close>

definition DEVICE_DISCONNECTED_C :: real where
  "DEVICE_DISCONNECTED_C = -127"

record dallas =
  dt_bus :: "real list"
  dt_devices :: "8 word"
  dt_latched :: "real list"

definition tempSensors_init :: "real list \<Rightarrow> dallas" where
  \<comment> \<open>the bus objects before \<open>begin()\<close>, with the probes \<open>ps\<close> attached\<close>
  "tempSensors_init ps = \<lparr>dt_bus = ps, dt_devices = 0, dt_latched = []\<rparr>"

definition dt_begin :: "dallas \<Rightarrow> dallas" where
  "dt_begin b = b\<lparr>dt_devices := of_nat (length (dt_bus b))\<rparr>"

definition dt_getDeviceCount :: "dallas \<Rightarrow> 8 word" where
  "dt_getDeviceCount b = dt_devices b"

definition dt_requestTemperatures :: "dallas \<Rightarrow> dallas" where
  "dt_requestTemperatures b = b\<lparr>dt_latched := dt_bus b\<rparr>"

definition dt_getTempCByIndex :: "dallas \<Rightarrow> nat \<Rightarrow> real" where
  "dt_getTempCByIndex b i =
     (if i < length (dt_latched b) then dt_latched b ! i else DEVICE_DISCONNECTED_C)"

definition dt_set_bus :: "real list \<Rightarrow> dallas \<Rightarrow> dallas" where
  "dt_set_bus ps b = b\<lparr>dt_bus := ps\<rparr>"

definition configureTempSensors_bus :: "sense_state \<Rightarrow> dallas \<Rightarrow> sense_state \<times> dallas" where
  "configureTempSensors_bus s b =
     (let b' = dt_begin b
      in (configureTempSensors s (int (unat (dt_getDeviceCount b'))), b'))"

definition senseTemperatures_bus :: "sense_state \<Rightarrow> dallas \<Rightarrow> sense_error + sense_state \<times> dallas" where
  "senseTemperatures_bus s b =
     (let b' = dt_requestTemperatures b
      in case senseTemperatures s (dt_getTempCByIndex b') of
           Inl e \<Rightarrow> Inl e
         | Inr s' \<Rightarrow> Inr (s', b'))"

lemma temp_loop_upto:
  "i \<le> n \<Longrightarrow> n \<le> length ts \<Longrightarrow>
     temp_loop rd (int n) i ts = Inr (take i ts @ map rd [i..<n] @ drop n ts)"
proof (induction "n - i" arbitrary: i ts)
  case 0
  then have "i = n" by simp
  then show ?case by (simp add: temp_loop.simps [of rd "int n" n ts])
next
  case (Suc k)
  then have lt: "i < n" by simp
  have "temp_loop rd (int n) i ts = temp_loop rd (int n) (Suc i) (ts[i := rd i])"
    using lt Suc.prems(2) by (simp add: temp_loop.simps [of rd "int n" i ts])
  also have "\<dots> = Inr (take (Suc i) (ts[i := rd i]) @ map rd [Suc i..<n] @ drop n (ts[i := rd i]))"
    using Suc.hyps(1) [of "Suc i" "ts[i := rd i]"] Suc.hyps(2) lt Suc.prems(2) by simp
  also have "\<dots> = Inr (take i ts @ map rd [i..<n] @ drop n ts)"
    using lt Suc.prems(2) by (simp add: take_Suc_conv_app_nth upt_conv_Cons)
  finally show ?case .
qed

lemma uint_of_nat_8: "uint (word_of_nat n :: 8 word) = int (n mod 256)"
  by transfer (simp add: take_bit_eq_mod of_nat_mod)

lemma configure_sense_bus:
  assumes "length (tempC s) = 2"
  shows "senseTemperatures_bus (fst (configureTempSensors_bus s (dt_set_bus ps0 b)))
           (dt_set_bus ps (snd (configureTempSensors_bus s (dt_set_bus ps0 b)))) =
     (if length ps0 mod 256 \<le> 2
      then Inr (s\<lparr>deviceCount := int (length ps0 mod 256),
                  tempC := map (\<lambda>i. if i < length ps then ps ! i else DEVICE_DISCONNECTED_C) [0..<length ps0 mod 256]
                           @ drop (length ps0 mod 256) (tempC s),
                  senseSamples := int (length ps0 mod 256)\<rparr>,
                \<lparr>dt_bus = ps, dt_devices = of_nat (length ps0), dt_latched = ps,
                  \<dots> = dallas.more b\<rparr>)
      else Inl (TempIndexOutOfRange 2))"
proof -
  let ?n = "length ps0 mod 256"
  let ?rd = "dt_getTempCByIndex (dt_requestTemperatures (dt_set_bus ps (dt_begin (dt_set_bus ps0 b))))"
  have rd: "?rd = (\<lambda>i. if i < length ps then ps ! i else DEVICE_DISCONNECTED_C)"
    by (simp add: fun_eq_iff dt_getTempCByIndex_def dt_requestTemperatures_def dt_set_bus_def dt_begin_def)
  have cfg: "configureTempSensors_bus s (dt_set_bus ps0 b) =
      (s\<lparr>deviceCount := int ?n\<rparr>, dt_begin (dt_set_bus ps0 b))"
    by (simp add: configureTempSensors_bus_def configureTempSensors_def dt_getDeviceCount_def
        dt_begin_def dt_set_bus_def uint_of_nat_8)
  show ?thesis
  proof (cases "?n \<le> 2")
    case True
    have "temp_loop ?rd (int ?n) 0 (tempC s) = Inr (map ?rd [0..<?n] @ drop ?n (tempC s))"
      using temp_loop_upto [of 0 ?n "tempC s" ?rd] True assms by simp
    then show ?thesis
      using True by (simp add: cfg senseTemperatures_bus_def senseTemperatures_def rd Let_def)
         (simp add: dt_requestTemperatures_def dt_set_bus_def dt_begin_def)
  next
    case False
    have "temp_loop ?rd (int ?n) 0 (tempC s) = Inl (TempIndexOutOfRange 2)"
      using temp_loop_Inl [of 0 "tempC s" ?rd "int ?n" "TempIndexOutOfRange 2"] False assms by simp
    then show ?thesis
      using False by (simp add: cfg senseTemperatures_bus_def senseTemperatures_def Let_def)
  qed
qed

lemma tempSensors_init_bus: "dt_set_bus ps (tempSensors_init ps) = tempSensors_init ps"
  by (simp add: dt_set_bus_def tempSensors_init_def)

lemma configure_bus_same: "dt_set_bus ps (snd (configureTempSensors_bus s (tempSensors_init ps))) =
    snd (configureTempSensors_bus s (tempSensors_init ps))"
  by (simp add: configureTempSensors_bus_def dt_begin_def dt_set_bus_def tempSensors_init_def Let_def)

text \<open>
  C24. Temperature sensing through the probe bus: from any sensing state, with the
  probes \<open>ps\<close> on the bus, \<open>configureTempSensors\<close> followed by \<open>senseTemperatures\<close>
  stores the temperatures of the first \<open>n\<close> probes in \<open>tempC\<close> and keeps the other
  slots, where \<open>n\<close> is the probe count as the library's 8-bit counter holds it; with no
  probe nothing is read (the graceful degradation of spec section 7(c)); the call fails
  with an out-of-range write at index 2 exactly when \<open>n > 2\<close>.
\<close>

theorem temp_bus_configure_sense:
  assumes "length (tempC s) = 2"
  shows "(case configureTempSensors_bus s (tempSensors_init ps) of
            (s1, b1) \<Rightarrow> map_sum id fst (senseTemperatures_bus s1 b1)) =
     (if length ps mod 256 \<le> 2
      then Inr (s\<lparr>deviceCount := int (length ps mod 256),
                  tempC := take (length ps mod 256) ps @ drop (length ps mod 256) (tempC s),
                  senseSamples := int (length ps mod 256)\<rparr>)
      else Inl (TempIndexOutOfRange 2))"
proof -
  let ?n = "length ps mod 256"
  have m: "map (\<lambda>i. if i < length ps then ps ! i else DEVICE_DISCONNECTED_C) [0..<?n] = take ?n ps"
    by (rule nth_equalityI) auto
  have "senseTemperatures_bus (fst (configureTempSensors_bus s (tempSensors_init ps)))
          (snd (configureTempSensors_bus s (tempSensors_init ps))) =
     (if ?n \<le> 2
      then Inr (s\<lparr>deviceCount := int ?n,
                  tempC := take ?n ps @ drop ?n (tempC s), senseSamples := int ?n\<rparr>,
                \<lparr>dt_bus = ps, dt_devices = of_nat (length ps), dt_latched = ps,
                  \<dots> = dallas.more (tempSensors_init ps)\<rparr>)
      else Inl (TempIndexOutOfRange 2))"
    using configure_sense_bus [OF assms, of ps "tempSensors_init ps" ps] m
    by (simp only: tempSensors_init_bus configure_bus_same)
  then show ?thesis by (cases "?n \<le> 2") (simp_all add: case_prod_beta)
qed

theorem temp_bus_configure_sense_witness:
  "length (tempC sense_init) = 2 \<and>
   (case configureTempSensors_bus sense_init (tempSensors_init [21.5, 23]) of
      (s1, b1) \<Rightarrow> map_sum id fst (senseTemperatures_bus s1 b1)) =
   Inr (sense_init\<lparr>deviceCount := 2, tempC := [21.5, 23], senseSamples := 2\<rparr>)"
proof -
  have h: "length (tempC sense_init) = 2" by (simp add: sense_init_def)
  show ?thesis using temp_bus_configure_sense [OF h, of "[21.5, 23]"] h by (simp add: sense_init_def)
qed

text \<open>
  C25. The probe count is read once, by \<open>configureTempSensors\<close>: if the probes on the
  bus change afterwards (from \<open>ps0\<close>, at most two, to \<open>ps\<close>), \<open>senseTemperatures\<close>
  still reads exactly the first \<open>length ps0\<close> indices and never fails. A probe attached
  later is never read, and a probe lost later is stored as \<open>DEVICE_DISCONNECTED_C\<close>
  (\<open>-127\<close> degrees) in \<open>tempC\<close>, a value nothing distinguishes from a reading.
\<close>

theorem temp_bus_probe_change:
  assumes "length (tempC s) = 2" "length ps0 \<le> 2"
  shows "\<exists>b'. senseTemperatures_bus (fst (configureTempSensors_bus s (tempSensors_init ps0)))
             (dt_set_bus ps (snd (configureTempSensors_bus s (tempSensors_init ps0)))) =
         Inr (s\<lparr>deviceCount := int (length ps0),
                 tempC := map (\<lambda>i. if i < length ps then ps ! i else DEVICE_DISCONNECTED_C) [0..<length ps0]
                          @ drop (length ps0) (tempC s),
                 senseSamples := int (length ps0)\<rparr>, b')"
  using configure_sense_bus [OF assms(1), of ps0 "tempSensors_init ps0" ps] assms(2)
  by (simp add: tempSensors_init_bus)

theorem temp_bus_probe_change_witness:
  "\<exists>b'. senseTemperatures_bus (fst (configureTempSensors_bus sense_init (tempSensors_init [20, 21])))
          (dt_set_bus [20] (snd (configureTempSensors_bus sense_init (tempSensors_init [20, 21])))) =
        Inr (sense_init\<lparr>deviceCount := 2, tempC := [20, -127], senseSamples := 2\<rparr>, b')"
proof -
  have h: "length (tempC sense_init) = 2" "length [20, 21::real] \<le> 2" by (simp_all add: sense_init_def)
  show ?thesis
    using temp_bus_probe_change [OF h, of "[20]"] by (simp add: sense_init_def DEVICE_DISCONNECTED_C_def)
qed

end
