(* ===== verification/Spec2Isabelle.thy ===== *)
theory Spec2Isabelle
  imports LoopVoltage LoopSafety VoltageFilter TempBus
begin

text \<open>
  \<^bold>\<open>Verification of the sensing and protection loop of the motor-controller firmware.\<close>

  \<^emph>\<open>The program.\<close> Two C++ files of \<open>src/Motor Controller Firmware/src/modules/\<close>:
  \<open>sense.cpp\<close> samples the current, voltage and temperature channels into file-scope
  globals, filters the current through a 16-sample moving average, computes power and
  holds the (unfinished) maximum-power-point tracker \<open>trackMPPT\<close>; \<open>protections.cpp\<close>
  reads the sensing globals and biases the shared \<open>duty\<close> in \<open>checkProtections\<close>.
  They interact only through globals: \<open>iSenseVADC\<close>, \<open>zeroISenseVADC\<close> and
  \<open>vSenseADC\<close> written by the sensing functions and read by the protection rules.

  \<^emph>\<open>Library layout.\<close>
  \<^item> \<open>Prelude\<close>: the C semantics the code relies on (truncating \<open>/\<close> as \<open>c_div\<close>,
    float-to-int conversion \<open>c_trunc\<close>, the Arduino \<open>max\<close> macro, the counted
    \<open>for\<close> loop that sums analog reads as \<open>accum_reads\<close>), ADC and 16-bit ranges, and
    the arithmetic lemmas the components share (collection \<open>model_simps\<close>).
  \<^item> \<open>RunningAverage\<close>: the \<open>RunningAverage\<close> ring buffer used for
    \<open>movAvgCurrent\<close>. The library is not in the repository and is modelled from the
    spec (section 4.2): \<open>ra_addValue\<close>, \<open>ra_getFastAverage\<close> (running sum),
    \<open>ra_getAverage\<close> (re-sums the ring and stores the sum back). Lemmas: the ring
    invariant \<open>ra_inv\<close> and its preservation, the equality of the fast and the full
    average under it, and the refinement of the ring to the abstract window
    \<open>last_n N\<close> of the samples in arrival order (\<open>ra_held_addValues\<close>).
  \<^item> \<open>Sense\<close>: \<open>sense.cpp\<close>. The globals are the record \<open>sense_state\<close>
    (\<open>sense_init\<close> is their zero initialisation); \<open>configureTempSensors\<close>,
    \<open>senseTemperatures\<close> (loop \<open>temp_loop\<close>), \<open>senseZeroCurrent\<close>,
    \<open>senseCurrent\<close>, \<open>senseVoltage\<close>, \<open>sensePower\<close> and \<open>trackMPPT\<close> (scan
    \<open>mppt_peak\<close>) are one definition each, state in and state out; a call receives the
    values the external analog-read and probe primitives return as a function argument.
    \<open>sense_step\<close> runs one of them, chosen by the datatype \<open>sense_op\<close>;
    \<open>sense_reach\<close> is the inductive set of states reachable from start-up through
    any sequence of calls with 10-bit readings. The empty-branch bodies of
    \<open>trackMPPT\<close> change no state; the branch taken is returned as a \<open>pwm_action\<close>.
  \<^item> \<open>Protections\<close>: \<open>protections.cpp\<close>. The three rules \<open>check_mdd\<close>,
    \<open>check_ocp\<close>, \<open>check_ovp\<close> in code order inside \<open>checkProtections\<close>; the
    feature macros are the record \<open>prot_config\<close>; the duty's type is a parameter.
  \<^item> \<open>VoltageFilter\<close>: the recurrence that repeated \<open>senseVoltage\<close> calls
    compute, run to its fixed point as the \<open>while_option\<close> loop \<open>volt_settle\<close>,
    with the termination measure \<open>volt_measure\<close>.
  \<^item> \<open>ControlLoop\<close>: the driver loop, not in the repository and modelled from
    spec section 5: \<open>NonBlockingTask\<close> objects as \<open>task\<close> records with \<open>isDue\<close>,
    and \<open>ctrl_tick\<close>, which polls the current (1 ms), voltage (10 ms), power (100 ms)
    and temperature (1000 ms) tasks, runs the due sensing functions, then
    \<open>checkProtections\<close>, then \<open>trackMPPT\<close>. \<open>ctrl_reach\<close> is the set of loop
    states reachable from start-up, \<open>ctrl_run\<close> a run over a list of tick inputs and
    \<open>sched_ok\<close> the task state after ticks at every millisecond. The task periods of
    \<open>ctrl_init\<close> are those of the \<open>NonBlockingTask\<close> declarations in \<open>sense.cpp\<close>.
  \<^item> \<open>LoopVoltage\<close>: the voltage channel along loop runs: \<open>volt_track\<close> bounds
    \<open>5 r - 4 vSenseADC\<close> by the \<open>t div 10\<close>-th iterate of \<open>volt_dist_bound\<close> and ties
    the overvoltage flag to the reading; it is carried along consecutive ticks by the
    generic \<open>ControlLoop.ctrl_run_sched_rule\<close>.
  \<^item> \<open>TempBus\<close>: the objects \<open>oneWire\<close>/\<open>tempSensors\<close> (\<open>tempSensors_init\<close>)
    and the DallasTemperature calls, modelled from spec section 6 (\<open>dt_begin\<close>,
    \<open>dt_getDeviceCount\<close> with the library's 8-bit count, \<open>dt_requestTemperatures\<close>,
    \<open>dt_getTempCByIndex\<close> returning \<open>DEVICE_DISCONNECTED_C\<close> for a missing probe),
    and \<open>configureTempSensors_bus\<close>/\<open>senseTemperatures_bus\<close>, the two functions of
    \<open>sense.cpp\<close> with their library calls, composed from the \<open>Sense\<close> definitions.
    \<open>dt_set_bus\<close> is the environment attaching or removing probes.
  \<^item> \<open>LoopSafety\<close>: ordering within a tick (the power task after the voltage
    task), and the start-up calibration \<open>ctrl_setup\<close> (spec section 4.1, one call of
    \<open>senseZeroCurrent\<close> before the loop) with the offset along loop runs, from the
    general frame lemma \<open>ControlLoop.ctrl_tick_sense\<close>.

  \<^emph>\<open>Representation choices.\<close> \<open>int\<close> is the 16-bit AVR \<open>int\<close> and
  \<open>unsigned int sumCounter\<close> is a \<open>16 word\<close> (the code compares it with 65535, its
  maximum); the lemmas show the \<open>int\<close> accumulators stay inside 16 bits, so no
  wrap-around needs modelling for them. Floats are reals: the ADC values they are
  computed from are small integers, exact in a float, and the moving-average quotient
  truncated back to \<open>int\<close> equals \<open>c_div\<close>; the rounding of the physical-unit
  conversions (\<open>current\<close>, \<open>voltage\<close>, \<open>power\<close>) is not modelled. A write past the
  end of \<open>tempC[2]\<close> is the error \<open>TempIndexOutOfRange\<close> and an average of an empty
  ring (\<open>NAN\<close>) is \<open>NanAverage\<close>.

  \<^emph>\<open>What is proved.\<close> C1, C2 (Protections): the exact duty adjustment and flag
  values of \<open>checkProtections\<close> for every configuration. C4, C5, C10, C14, C18, C19
  (Sense with RunningAverage): \<open>senseCurrent\<close> always returns on a well-formed filter
  with the truncated mean of the last 16 readings; from start-up the filtered reading is
  the sliding-window mean; 16 equal readings leave that reading from any filter state;
  the 16-bit counter advances by one per call modulo \<open>2^16\<close>; the fast path equals the
  re-summing reference; the call fails exactly in the allocation-failure state. C6: every
  reachable state satisfies the sensing invariant and the accumulators fit 16 bits.
  C3, C8: \<open>senseVoltage\<close> never clears its accumulator, so a constant battery reading
  \<open>r \<ge> 5\<close> never reads as \<open>r\<close> and settles within six calls (the fuel of
  \<open>volt_iter\<close>, enough because the distance \<open>5 r - 4 v\<close> shrinks from at most 5115 to at
  most 4 in six steps, \<open>volt_dist_bound\<close>) at about \<open>5 r / 4\<close>. C17 (VoltageFilter):
  from any reading the settling loop terminates in that band. C7, C11, C29: the
  tracker's history is never written, so its decrease branch is dead in every reachable
  state; its scan computes the all-time maximum of truncated powers; with the present
  power as the newest entry of a non-decreasing history it keeps the duty where the
  spec's monotonic climb increases it. C9: more than two probes overflow \<open>tempC\<close>.
  C12, C13: calibration averages five readings on the first call and adds a fifth of
  the old offset on every later one. C26: \<open>voltage\<close> and \<open>current\<close> stay within the
  ranges their ADC values imply, and the voltage range exceeds the 44.8 V full scale.
  C15, C16, C20, C21 (ControlLoop): protection acts on the readings just sensed and the
  tracker after it changes only \<open>mx\<close>; with at most two probes, ticks at consecutive
  milliseconds never fail and sample the current every tick; the voltage, power and
  temperature tasks run on every 10th, 100th and 1000th tick; the duty moves by
  \<open>-2 .. +3\<close> per tick. C22, C23 (LoopVoltage): after 60 ticks (six runs of the 10 ms
  voltage task, the fuel argument of C8) the loop's voltage reading has settled at about
  \<open>5 r / 4\<close>, and for every true reading from 677 to 845 the overvoltage flag is then
  raised. C24, C25 (TempBus): configuring and sensing through the probe bus stores the
  first \<open>n\<close> probe temperatures (\<open>n\<close> the 8-bit count) or fails exactly when
  \<open>n > 2\<close>; the count is latched at configuration, so a probe lost later is stored as
  \<open>-127\<close> degrees. C27, C28 (LoopSafety): a power tick multiplies the voltage and
  current of the same tick; after the start-up calibration the offset never changes and
  each tick's minimum-duty flag compares the filtered reading with it.

  \<^emph>\<open>Not modelled.\<close> The start-up code (\<open>setup()\<close>) and the main loop are not in the
  repository: both are modelled from the spec (\<open>ctrl_setup\<close>, \<open>ctrl_tick\<close>). The
  wrap-around of the 32-bit \<open>millis()\<close> in the scheduler is not modelled, since neither
  the repository nor the spec fixes how elapsed time is computed. The lines
  of the two source files outside the map are their comment headers and includes. The
  analog-read primitives (external; their results are
  inputs), the OneWire wire protocol, device addressing and scratchpad checks of the
  probe library (only its spec-level contract is modelled), and the \<open>min\<close>/\<open>max\<close>
  bookkeeping of the RunningAverage library, which nothing reads. The float rounding
  drift that the 65535 resynchronisation of \<open>senseCurrent\<close> corrects is not modelled:
  with exact sums the fast and the full average agree (C23), so how often the resync
  runs is not observable in the model; C14 shows the counter that triggers it wraps
  every 65536 calls. The width of the external \<open>duty\<close> is a type parameter.
\<close>

end
